theory Spec2Isabelle
  imports Main "HOL-Library.Sublist"
begin

section \<open>Time and the clock\<close>

text \<open>
  Python's \<open>datetime\<close> and \<open>timedelta\<close> have microsecond resolution; both are
  integers here (microseconds). \<open>time.time()\<close> returns float seconds: it is read from the
  same wall clock and is taken in microseconds too, so that \<open>timedelta(seconds=interval)\<close>
  is the integer \<open>interval\<close> (the float rounding is abstracted).

  A clock is the sequence of the readings the program obtains: \<open>clk k\<close> is what its
  \<open>k\<close>-th read of the wall clock returns. The number of reads made so far is part of the
  state (\<open>ticks\<close>).
\<close>

type_synonym datetime = int
type_synonym timedelta = int
type_synonym clock = "nat \<Rightarrow> int"

definition WINDOW_ENUMERATION_INTERVAL :: int where
  "WINDOW_ENUMERATION_INTERVAL = 1000000"

section \<open>core/data\_models.py\<close>

record WindowInfo =
  hwnd :: int
  title :: string
  process_name :: string
  first_seen :: datetime
  last_seen :: datetime
  total_open_time :: timedelta
  active_time :: timedelta
  is_active :: bool
  is_visible :: bool

text \<open>
  \<open>WindowInfo.update_times\<close>. The method reads the clock twice (\<open>last_seen\<close>, then
  \<open>total_open_time\<close>): \<open>now1\<close> and \<open>now2\<close> are these two readings.
\<close>

definition update_times :: "WindowInfo \<Rightarrow> int \<Rightarrow> bool \<Rightarrow> datetime \<Rightarrow> datetime \<Rightarrow> WindowInfo" where
  "update_times w interval is_currently_active now1 now2 =
     (let w1 = w\<lparr>last_seen := now1\<rparr>;
          w2 = w1\<lparr>total_open_time := now2 - first_seen w1\<rparr>
      in if is_currently_active
         then w2\<lparr>active_time := active_time w2 + interval, is_active := True\<rparr>
         else w2\<lparr>is_active := False\<rparr>)"

section \<open>core/window\_tracker\_factory.py\<close>

text \<open>
  What the factory sees of its environment: \<open>sys.platform\<close> and whether the imports of
  the native bindings succeeded (the module-level flags of the two tracker modules).
\<close>

record platform_env =
  sys_platform :: string
  WINDOWS_AVAILABLE :: bool
  MACOS_AVAILABLE :: bool

datatype window_tracker = WindowsWindowTracker | MacOSWindowTracker

definition windows_is_supported :: "platform_env \<Rightarrow> bool" where
  "windows_is_supported p = (sys_platform p = ''win32'' \<and> WINDOWS_AVAILABLE p)"

definition macos_is_supported :: "platform_env \<Rightarrow> bool" where
  "macos_is_supported p = (sys_platform p = ''darwin'' \<and> MACOS_AVAILABLE p)"

definition unsupported_msg :: "string \<Rightarrow> string" where
  "unsupported_msg platform =
     ''Unsupported platform: '' @ platform @ ''. This application requires Windows or macOS.''"

definition pywin32_hint :: string where
  "pywin32_hint =
     [CHR 0x0A, CHR 0x0A] @ ''Windows detected but pywin32 is not installed. Install with:''
     @ [CHR 0x0A] @ ''  pip install pywin32''"

definition pyobjc_hint :: string where
  "pyobjc_hint =
     [CHR 0x0A, CHR 0x0A] @ ''macOS detected but PyObjC is not installed. Install with:''
     @ [CHR 0x0A] @ ''  pip install pyobjc-core pyobjc-framework-Cocoa pyobjc-framework-Quartz''"

text \<open>\<open>create_window_tracker\<close>: \<open>Inl msg\<close> is \<open>raise RuntimeError(msg)\<close>.\<close>

definition create_window_tracker :: "platform_env \<Rightarrow> string + window_tracker" where
  "create_window_tracker p =
     (if windows_is_supported p then Inr WindowsWindowTracker
      else if macos_is_supported p then Inr MacOSWindowTracker
      else
        let platform = sys_platform p;
            error_msg = unsupported_msg platform;
            error_msg = (if platform = ''win32'' then error_msg @ pywin32_hint
                         else if platform = ''darwin'' then error_msg @ pyobjc_hint
                         else error_msg)
        in Inl error_msg)"

definition get_supported_platforms :: "platform_env \<Rightarrow> string list" where
  "get_supported_platforms p =
     (if windows_is_supported p then [''Windows''] else [])
     @ (if macos_is_supported p then [''macOS''] else [])"

section \<open>core/time\_tracker.py\<close>

subsection \<open>State\<close>

text \<open>
  \<open>WindowInfo\<close> objects are mutable and shared by reference: the dictionary
  \<open>_windows\<close> holds references, and so do the lists handed to readers. The objects live in
  an explicit store; \<open>next_ref\<close> is the first address not yet allocated (the content of the
  store from there on is never read). The dictionary is an association list in insertion
  order, as Python's \<open>dict\<close> iterates.

  Of the effects of the tracking loop, the error log and the sleeps are recorded in
  \<open>effects\<close>; the info, warning and debug log calls are left out.
\<close>

type_synonym ref = nat

datatype effect = LogError string | Sleep int

record TimeTracker =
  store :: "ref \<Rightarrow> WindowInfo"
  next_ref :: ref
  windows :: "(int \<times> ref) list"
  running :: bool
  last_update_time :: "int option"
  simulation_mode :: bool
  window_tracker :: "window_tracker option"
  ticks :: nat
  effects :: "effect list"

definition no_window :: WindowInfo where
  "no_window = \<lparr>hwnd = 0, title = [], process_name = [], first_seen = 0, last_seen = 0,
     total_open_time = 0, active_time = 0, is_active = False, is_visible = False\<rparr>"

definition new_tracker :: "bool \<Rightarrow> window_tracker option \<Rightarrow> TimeTracker" where
  "new_tracker mode wt =
     \<lparr>store = (\<lambda>_. no_window), next_ref = 0, windows = [], running = False,
      last_update_time = None, simulation_mode = mode, window_tracker = wt,
      ticks = 0, effects = []\<rparr>"

text \<open>\<open>TimeTracker.__init__\<close>: the \<open>RuntimeError\<close> of the factory is re-raised.\<close>

definition TimeTracker_init :: "platform_env \<Rightarrow> bool \<Rightarrow> string + TimeTracker" where
  "TimeTracker_init p mode =
     (if mode then Inr (new_tracker True None)
      else case create_window_tracker p of
             Inl e \<Rightarrow> Inl e
           | Inr wt \<Rightarrow> Inr (new_tracker False (Some wt)))"

subsection \<open>The window sources, as the engine sees them\<close>

text \<open>
  One reconciliation cycle calls the source once. \<open>simulation_update\<close> is what
  \<open>HouseSimulation.update()\<close> does in this cycle: it raises (\<open>Inl\<close>) or returns the
  window tuples and the focused handle. \<open>enumerate_windows\<close> and
  \<open>get_active_window_handle\<close> are the two calls on the native tracker. Both native trackers
  build every entry of their result by the same constructor call
  \<open>WindowInfo(hwnd=.., title=.., process_name=.., is_active=.., is_visible=True)\<close>, so the
  environment supplies the four arguments per window and \<open>native_window_info\<close> is the
  constructor call (the two default factories of \<open>first_seen\<close> and \<open>last_seen\<close> read the
  clock).
\<close>

type_synonym sim_window = "int \<times> string \<times> string"
type_synonym native_window = "int \<times> string \<times> string \<times> bool"

record cycle_env =
  simulation_update :: "string + (sim_window list \<times> int)"
  enumerate_windows :: "string + native_window list"
  get_active_window_handle :: "string + int option"

definition native_window_info :: "clock \<Rightarrow> nat \<Rightarrow> native_window \<Rightarrow> WindowInfo" where
  "native_window_info clk t = (\<lambda>(h, ti, p, a).
     \<lparr>hwnd = h, title = ti, process_name = p, first_seen = clk t, last_seen = clk (t + 1),
      total_open_time = 0, active_time = 0, is_active = a, is_visible = True\<rparr>)"

fun native_windows :: "clock \<Rightarrow> nat \<Rightarrow> native_window list \<Rightarrow> WindowInfo list" where
  "native_windows clk t [] = []"
| "native_windows clk t (x # xs) = native_window_info clk t x # native_windows clk (t + 2) xs"

subsection \<open>Public operations\<close>

definition start :: "clock \<Rightarrow> TimeTracker \<Rightarrow> TimeTracker" where
  "start clk s =
     (if running s then s
      else s\<lparr>running := True, last_update_time := Some (clk (ticks s)), ticks := ticks s + 1\<rparr>)"

definition stop :: "TimeTracker \<Rightarrow> TimeTracker" where
  "stop s = (if \<not> running s then s else s\<lparr>running := False\<rparr>)"

definition clear :: "TimeTracker \<Rightarrow> TimeTracker" where
  "clear s = s\<lparr>windows := []\<rparr>"

text \<open>
  \<open>get_all_windows\<close> is \<open>list(self._windows.values())\<close>: a new list of the same
  references. \<open>get_window\<close> is \<open>self._windows.get(hwnd)\<close>: the reference itself.
  \<open>deref\<close> is what a reader sees through a reference in a given state.
\<close>

definition get_all_windows :: "TimeTracker \<Rightarrow> ref list" where
  "get_all_windows s = map snd (windows s)"

definition get_window :: "TimeTracker \<Rightarrow> int \<Rightarrow> ref option" where
  "get_window s h = map_of (windows s) h"

definition deref :: "TimeTracker \<Rightarrow> ref \<Rightarrow> WindowInfo" where
  "deref s r = store s r"

definition is_running :: "TimeTracker \<Rightarrow> bool" where
  "is_running s = running s"

record stats =
  total_windows :: nat
  visible_windows :: nat
  active_window :: "string option"
  stats_is_running :: bool
  stats_simulation_mode :: bool

definition get_stats :: "TimeTracker \<Rightarrow> stats" where
  "get_stats s =
     (let values = map (store s) (map snd (windows s));
          total = length (windows s);
          visible = length (filter is_visible values);
          active = find is_active values
      in \<lparr>total_windows = total, visible_windows = visible,
          active_window = (case active of Some w \<Rightarrow> Some (title w) | None \<Rightarrow> None),
          stats_is_running = running s, stats_simulation_mode = simulation_mode s\<rparr>)"

subsection \<open>The reconciliation cycle\<close>

text \<open>
  The body of the first loop of \<open>_update_windows\<close> in simulation mode, for one tuple.
  A new object is allocated at \<open>next_ref\<close>.
\<close>

definition sim_entry :: "clock \<Rightarrow> int \<Rightarrow> int \<Rightarrow> sim_window \<Rightarrow> TimeTracker \<Rightarrow> TimeTracker" where
  "sim_entry clk interval active_hwnd = (\<lambda>(h, ti, p) s.
     let is_currently_active = (h = active_hwnd) in
     case map_of (windows s) h of
       Some r \<Rightarrow>
         let window_info = update_times (store s r) interval is_currently_active
                             (clk (ticks s)) (clk (ticks s + 1));
             window_info = window_info\<lparr>title := ti\<rparr>;
             window_info = window_info\<lparr>is_visible := True\<rparr>
         in s\<lparr>store := (store s)(r := window_info), ticks := ticks s + 2\<rparr>
     | None \<Rightarrow>
         let window_info = \<lparr>hwnd = h, title = ti, process_name = p,
                            first_seen = clk (ticks s), last_seen = clk (ticks s + 1),
                            total_open_time = 0, active_time = 0,
                            is_active = is_currently_active, is_visible = True\<rparr>
         in s\<lparr>store := (store s)(next_ref s := window_info), next_ref := next_ref s + 1,
              windows := windows s @ [(h, next_ref s)], ticks := ticks s + 2\<rparr>)"

text \<open>
  The same for a native tracker. The source inserts the object it was given; since the
  trackers build new objects on every call and keep none, allocating it at insertion is the
  same.
\<close>

definition native_entry :: "clock \<Rightarrow> int \<Rightarrow> WindowInfo \<Rightarrow> TimeTracker \<Rightarrow> TimeTracker" where
  "native_entry clk interval window_info s =
     (let h = hwnd window_info;
          is_currently_active = is_active window_info in
      case map_of (windows s) h of
        Some r \<Rightarrow>
          let existing = update_times (store s r) interval is_currently_active
                           (clk (ticks s)) (clk (ticks s + 1));
              existing = existing\<lparr>title := title window_info\<rparr>;
              existing = existing\<lparr>is_visible := is_visible window_info\<rparr>;
              existing = existing\<lparr>is_active := is_currently_active\<rparr>
          in s\<lparr>store := (store s)(r := existing), ticks := ticks s + 2\<rparr>
      | None \<Rightarrow>
          let window_info = window_info\<lparr>first_seen := clk (ticks s)\<rparr>;
              window_info = window_info\<lparr>last_seen := clk (ticks s + 1)\<rparr>
          in s\<lparr>store := (store s)(next_ref s := window_info), next_ref := next_ref s + 1,
               windows := windows s @ [(h, next_ref s)], ticks := ticks s + 2\<rparr>)"

text \<open>The body of the second loop: a tracked handle that is not in the snapshot.\<close>

definition mark_not_visible :: "int set \<Rightarrow> int \<Rightarrow> TimeTracker \<Rightarrow> TimeTracker" where
  "mark_not_visible current_hwnds h s =
     (if h \<notin> current_hwnds then
        (case map_of (windows s) h of
           Some r \<Rightarrow> s\<lparr>store := (store s)(r := (store s r)\<lparr>is_visible := False\<rparr>)\<rparr>
         | None \<Rightarrow> s)
      else s)"

definition mark_all :: "int set \<Rightarrow> TimeTracker \<Rightarrow> TimeTracker" where
  "mark_all current_hwnds s = fold (mark_not_visible current_hwnds) (map fst (windows s)) s"

text \<open>
  \<open>_update_windows\<close>. The result is the exception raised, if any, and the state at that
  point (Python undoes nothing when an exception propagates).
\<close>

definition update_windows :: "clock \<Rightarrow> cycle_env \<Rightarrow> int \<Rightarrow> TimeTracker \<Rightarrow> string option \<times> TimeTracker" where
  "update_windows clk env interval s =
     (if simulation_mode s then
        (case simulation_update env of
           Inl e \<Rightarrow> (Some e, s)
         | Inr (current_windows_list, active_hwnd) \<Rightarrow>
             let current_hwnds = set (map fst current_windows_list);
                 s1 = fold (sim_entry clk interval active_hwnd) current_windows_list s
             in (None, mark_all current_hwnds s1))
      else
        (case enumerate_windows env of
           Inl e \<Rightarrow> (Some e, s)
         | Inr raw \<Rightarrow>
             let current_windows_list = native_windows clk (ticks s) raw;
                 s0 = s\<lparr>ticks := ticks s + 2 * length raw\<rparr>
             in (case get_active_window_handle env of
                   Inl e \<Rightarrow> (Some e, s0)
                 | Inr active_hwnd \<Rightarrow>
                     let current_hwnds = set (map hwnd current_windows_list);
                         s1 = fold (native_entry clk interval) current_windows_list s0
                     in (None, mark_all current_hwnds s1))))"

subsection \<open>The tracking loop\<close>

definition type_error :: string where
  "type_error = ''unsupported operand type(s) for -: '' @ [CHR 0x27] @ ''float'' @ [CHR 0x27]
     @ '' and '' @ [CHR 0x27] @ ''NoneType'' @ [CHR 0x27]"

text \<open>One iteration of \<open>_tracking_loop\<close>: the \<open>try\<close> block and its handler.\<close>

definition tracking_cycle :: "clock \<Rightarrow> cycle_env \<Rightarrow> TimeTracker \<Rightarrow> TimeTracker" where
  "tracking_cycle clk env s =
     (let current_time = clk (ticks s);
          s1 = s\<lparr>ticks := ticks s + 1\<rparr>;
          (raised, s3) =
            (case last_update_time s1 of
               None \<Rightarrow> (Some type_error, s1)
             | Some previous \<Rightarrow>
                 let interval = current_time - previous;
                     s2 = s1\<lparr>last_update_time := Some current_time\<rparr>
                 in update_windows clk env interval s2)
      in case raised of
           None \<Rightarrow> s3\<lparr>effects := effects s3 @ [Sleep WINDOW_ENUMERATION_INTERVAL]\<rparr>
         | Some e \<Rightarrow> s3\<lparr>effects := effects s3 @
                        [LogError (''Error in tracking loop: '' @ e),
                         Sleep WINDOW_ENUMERATION_INTERVAL]\<rparr>)"

text \<open>
  \<open>_tracking_loop\<close> over the environments of its successive iterations. The loop runs
  while \<open>_running\<close> holds; the list is the part of the run that is observed.
\<close>

fun tracking_loop :: "clock \<Rightarrow> cycle_env list \<Rightarrow> TimeTracker \<Rightarrow> TimeTracker" where
  "tracking_loop clk [] s = s"
| "tracking_loop clk (env # envs) s =
     (if running s then tracking_loop clk envs (tracking_cycle clk env s) else s)"

text \<open>
  The operations that change a tracker, interleaved at the granularity of the lock:
  the three public mutators and one iteration of the background loop.
\<close>

datatype operation = Start | Stop | Clear | Poll cycle_env

fun step :: "clock \<Rightarrow> operation \<Rightarrow> TimeTracker \<Rightarrow> TimeTracker" where
  "step clk Start s = start clk s"
| "step clk Stop s = stop s"
| "step clk Clear s = clear s"
| "step clk (Poll env) s = tracking_loop clk [env] s"

definition run :: "clock \<Rightarrow> operation list \<Rightarrow> TimeTracker \<Rightarrow> TimeTracker" where
  "run clk ops s = fold (step clk) ops s"

text \<open>The record tracked under a handle: \<open>get_window\<close>, then reading the object.\<close>

definition lookup :: "TimeTracker \<Rightarrow> int \<Rightarrow> WindowInfo option" where
  "lookup s h = map_option (store s) (get_window s h)"

definition tracked :: "TimeTracker \<Rightarrow> int set" where
  "tracked s = fst ` set (windows s)"

section \<open>Reading the model\<close>

subsection \<open>Snapshots\<close>

text \<open>
  What a cycle receives from its source, in one form for both modes: per window the handle,
  the title, the process name and whether the engine will take it as focused (in simulation
  mode the handle equals the focused handle; for a native tracker the \<open>is_active\<close> of the
  entry). \<open>report\<close> is \<open>None\<close> when a call on the source raises, and \<open>source_error\<close> is
  then the exception. \<open>polled s env\<close> is the snapshot that an iteration of the loop
  reconciles in state \<open>s\<close>: there is none when the loop is not running, when the interval
  cannot be computed, or when the source raises.
\<close>

definition report :: "bool \<Rightarrow> cycle_env \<Rightarrow> native_window list option" where
  "report sim env =
     (if sim then
        (case simulation_update env of
           Inl e \<Rightarrow> None
         | Inr (ws, act) \<Rightarrow> Some (map (\<lambda>(h, ti, p). (h, ti, p, h = act)) ws))
      else
        (case enumerate_windows env of
           Inl e \<Rightarrow> None
         | Inr raw \<Rightarrow> (case get_active_window_handle env of Inl e \<Rightarrow> None | Inr a \<Rightarrow> Some raw)))"

definition source_error :: "bool \<Rightarrow> cycle_env \<Rightarrow> string option" where
  "source_error sim env =
     (if sim then (case simulation_update env of Inl e \<Rightarrow> Some e | Inr r \<Rightarrow> None)
      else (case enumerate_windows env of
              Inl e \<Rightarrow> Some e
            | Inr raw \<Rightarrow> (case get_active_window_handle env of Inl e \<Rightarrow> Some e | Inr a \<Rightarrow> None)))"

definition polled :: "TimeTracker \<Rightarrow> cycle_env \<Rightarrow> native_window list option" where
  "polled s env =
     (if running s \<and> last_update_time s \<noteq> None then report (simulation_mode s) env else None)"

definition focus_count :: "native_window list \<Rightarrow> int \<Rightarrow> nat" where
  "focus_count rep h = length (filter (\<lambda>(h', ti, p, a). h' = h \<and> a) rep)"

subsection \<open>The two loops of a cycle, on one record\<close>

text \<open>
  Both branches of the first loop either rewrite the object bound to the handle or allocate
  a new one and bind it (\<open>upsert\<close>); \<open>reconcile_entry\<close> is that step on an entry of a
  snapshot, and \<open>entry_value\<close> the record it leaves under the handle, given the record
  that was there. \<open>reconcile\<close> is the two loops one after the other. These are shown below
  to be what \<open>sim_entry\<close>, \<open>native_entry\<close> and \<open>update_windows\<close> compute.
\<close>

definition upsert :: "int \<Rightarrow> (WindowInfo \<Rightarrow> WindowInfo) \<Rightarrow> WindowInfo \<Rightarrow> TimeTracker \<Rightarrow> TimeTracker" where
  "upsert h f w s =
     (case map_of (windows s) h of
        Some r \<Rightarrow> s\<lparr>store := (store s)(r := f (store s r)), ticks := ticks s + 2\<rparr>
      | None \<Rightarrow> s\<lparr>store := (store s)(next_ref s := w), next_ref := next_ref s + 1,
                 windows := windows s @ [(h, next_ref s)], ticks := ticks s + 2\<rparr>)"

definition reconcile_entry :: "clock \<Rightarrow> int \<Rightarrow> native_window \<Rightarrow> TimeTracker \<Rightarrow> TimeTracker" where
  "reconcile_entry clk interval = (\<lambda>(h, ti, p, a) s.
     upsert h
       (\<lambda>w. (update_times w interval a (clk (ticks s)) (clk (ticks s + 1)))
               \<lparr>title := ti, is_visible := True\<rparr>)
       \<lparr>hwnd = h, title = ti, process_name = p,
        first_seen = clk (ticks s), last_seen = clk (ticks s + 1),
        total_open_time = 0, active_time = 0, is_active = a, is_visible = True\<rparr> s)"

definition entry_value :: "clock \<Rightarrow> int \<Rightarrow> nat \<Rightarrow> native_window \<Rightarrow> WindowInfo option \<Rightarrow> WindowInfo" where
  "entry_value clk interval t = (\<lambda>(h, ti, p, a) old.
     case old of
       Some w \<Rightarrow> (update_times w interval a (clk t) (clk (t + 1)))\<lparr>title := ti, is_visible := True\<rparr>
     | None \<Rightarrow> \<lparr>hwnd = h, title = ti, process_name = p, first_seen = clk t, last_seen = clk (t + 1),
                total_open_time = 0, active_time = 0, is_active = a, is_visible = True\<rparr>)"

definition reconcile :: "clock \<Rightarrow> int \<Rightarrow> native_window list \<Rightarrow> TimeTracker \<Rightarrow> TimeTracker" where
  "reconcile clk interval rep s = mark_all (fst ` set rep) (fold (reconcile_entry clk interval) rep s)"

subsection \<open>Invariants of the reachable states\<close>

text \<open>
  In every state reached from a new tracker the map binds each handle once, no two handles
  share an object, every bound object is allocated, and a running tracker has the time of
  its previous cycle. \<open>time_inv\<close> bounds what a record has accumulated by the last reading
  of the clock.
\<close>

definition well_formed :: "TimeTracker \<Rightarrow> bool" where
  "well_formed s \<longleftrightarrow> distinct (map fst (windows s)) \<and> distinct (map snd (windows s))
     \<and> (\<forall>r \<in> snd ` set (windows s). r < next_ref s)"

definition invariant :: "TimeTracker \<Rightarrow> bool" where
  "invariant s \<longleftrightarrow> well_formed s \<and> (running s \<longrightarrow> last_update_time s \<noteq> None)"

definition time_inv :: "clock \<Rightarrow> TimeTracker \<Rightarrow> bool" where
  "time_inv clk s \<longleftrightarrow>
     (\<forall>h w. lookup s h = Some w \<longrightarrow> first_seen w + total_open_time w \<le> clk (ticks s))"

text \<open>
  The contract of a source on focus: the entries of one snapshot that are flagged as focused
  all carry the same identifier. In simulation mode the engine derives the flag from the
  single focused handle, so every snapshot satisfies it; for a native tracker it is a
  condition on what the tracker reports. \<open>visible_focus\<close> lists the records a reader of
  \<open>get_all_windows\<close> finds both focused and visible.
\<close>

definition single_focus :: "native_window list \<Rightarrow> bool" where
  "single_focus rep \<longleftrightarrow>
     (\<forall>e1\<in>set rep. \<forall>e2\<in>set rep. snd (snd (snd e1)) \<and> snd (snd (snd e2)) \<longrightarrow> fst e1 = fst e2)"

fun source_contract :: "bool \<Rightarrow> operation \<Rightarrow> bool" where
  "source_contract sim (Poll env) =
     (case report sim env of None \<Rightarrow> True | Some rep \<Rightarrow> single_focus rep)"
| "source_contract sim op = True"

definition visible_focus :: "TimeTracker \<Rightarrow> WindowInfo list" where
  "visible_focus s =
     filter (\<lambda>w. is_active w \<and> is_visible w) (map (deref s) (get_all_windows s))"

definition one_visible_focus :: "TimeTracker \<Rightarrow> bool" where
  "one_visible_focus s \<longleftrightarrow>
     (\<forall>h1 h2 w1 w2. lookup s h1 = Some w1 \<and> lookup s h2 = Some w2
        \<and> is_active w1 \<and> is_visible w1 \<and> is_active w2 \<and> is_visible w2 \<longrightarrow> h1 = h2)"

subsection \<open>Concrete runs\<close>

text \<open>
  A clock given by the list of its first readings (it stays at the last of them), and a
  cycle in which the simulation returns the given tuples and focused handle.
\<close>

definition clock_of :: "int list \<Rightarrow> clock" where
  "clock_of xs n = (if n < length xs then xs ! n else last (0 # xs))"

definition sim_reports :: "sim_window list \<Rightarrow> int \<Rightarrow> cycle_env" where
  "sim_reports ws a =
     \<lparr>simulation_update = Inr (ws, a), enumerate_windows = Inl ''no native tracker'',
      get_active_window_handle = Inl ''no native tracker''\<rparr>"

text \<open>
  A run in simulation mode: the reading of the clock at \<open>start()\<close> is 0, the first cycle
  begins one second later and sees only the editor (focused); later cycles, two seconds
  after the first, see the editor and the browser, the browser alone (focused), the editor
  under a new title and process name, or a simulation that raises.
\<close>

definition demo_clock :: clock where
  "demo_clock = clock_of [0, 1000000, 1000000, 1000000, 3000000, 3000000, 3000000, 3000000,
     3000000, 4000000, 4000000, 4000000]"

definition editor_only :: cycle_env where
  "editor_only = sim_reports [(1, ''Editor'', ''editor'')] 1"

definition editor_and_browser :: cycle_env where
  "editor_and_browser = sim_reports [(1, ''Editor'', ''editor''), (2, ''Browser'', ''browser'')] 2"

definition browser_only :: cycle_env where
  "browser_only = sim_reports [(2, ''Browser'', ''browser'')] 2"

definition renamed_editor :: cycle_env where
  "renamed_editor = sim_reports [(1, ''Editor v2'', ''renamed'')] 1"

definition failing_source :: cycle_env where
  "failing_source = \<lparr>simulation_update = Inl ''list index out of range'',
     enumerate_windows = Inl ''no native tracker'',
     get_active_window_handle = Inl ''no native tracker''\<rparr>"

text \<open>
  A second clock, on which the source is slow in the first cycle: \<open>start()\<close> and the
  first cycle read 0, the first snapshot arrives half a second later, the second cycle
  begins at 1.5 s and its snapshot arrives 0.1 s later.
\<close>

definition slow_clock :: clock where
  "slow_clock = clock_of [0, 0, 500000, 500000, 1500000, 1600000, 1600000]"

text \<open>
  A cycle on a native tracker: \<open>enumerate_windows()\<close> returns the given windows and
  \<open>get_active_window_handle()\<close> the given handle. In the native run the tracker is started
  at 0 and its three cycles begin at 1 s, 2 s and 3 s: the first sees the editor and the
  browser (focused), the second the browser alone, the third the editor alone (focused).
\<close>

definition native_reports :: "native_window list \<Rightarrow> int option \<Rightarrow> cycle_env" where
  "native_reports raw a =
     \<lparr>simulation_update = Inl ''no simulation'', enumerate_windows = Inr raw,
      get_active_window_handle = Inr a\<rparr>"

definition native_clock :: clock where
  "native_clock = clock_of [0, 1000000, 1000000, 1000000, 1000000, 1000000, 1000000, 1000000,
     1000000, 1000000, 2000000, 2000000, 2000000, 2000000, 2000000, 3000000, 3000000, 3000000,
     3000000, 3000000]"

definition native_editor_and_browser :: cycle_env where
  "native_editor_and_browser = native_reports
     [(1, ''Editor'', ''editor'', False), (2, ''Browser'', ''browser'', True)] (Some 2)"

definition native_browser_only :: cycle_env where
  "native_browser_only = native_reports [(2, ''Browser'', ''browser'', True)] (Some 2)"

definition native_editor_only :: cycle_env where
  "native_editor_only = native_reports [(1, ''Editor'', ''editor'', True)] (Some 1)"

text \<open>
  A third clock, the wall clock set back during the third cycle: the cycles begin at 1 s,
  2 s and 3 s, and the readings of the update in the third cycle are 1.5 s.
\<close>

definition adjusted_clock :: clock where
  "adjusted_clock = clock_of [0, 1000000, 1000000, 1000000, 2000000, 2000000, 2000000,
     3000000, 1500000, 1500000]"

section \<open>The source selector\<close>

text \<open>
  C9. The factory tries the Windows tracker first and the macOS tracker second and returns
  the first that is supported. When neither is, it raises an error whose message is the
  plain "unsupported platform" text on a platform it does not recognise, that text followed
  by a hint naming pywin32 on win32, and followed by a hint naming PyObjC on darwin; the
  three messages differ.
\<close>

theorem create_window_tracker_selects:
  "create_window_tracker p =
     (if windows_is_supported p then Inr WindowsWindowTracker
      else if macos_is_supported p then Inr MacOSWindowTracker
      else if sys_platform p = ''win32'' then Inl (unsupported_msg ''win32'' @ pywin32_hint)
      else if sys_platform p = ''darwin'' then Inl (unsupported_msg ''darwin'' @ pyobjc_hint)
      else Inl (unsupported_msg (sys_platform p)))
   \<and> sublist ''pywin32'' pywin32_hint \<and> sublist ''PyObjC'' pyobjc_hint
   \<and> unsupported_msg ''win32'' @ pywin32_hint \<noteq> unsupported_msg ''win32''
   \<and> unsupported_msg ''darwin'' @ pyobjc_hint \<noteq> unsupported_msg ''darwin''"
proof -
  have a: "sublist ''pywin32'' pywin32_hint"
    unfolding pywin32_hint_def sublist_def
    by (rule exI [of _ "[CHR 0x0A, CHR 0x0A] @ ''Windows detected but ''"],
        rule exI [of _ "'' is not installed. Install with:'' @ [CHR 0x0A] @ ''  pip install pywin32''"])
       simp
  have b: "sublist ''PyObjC'' pyobjc_hint"
    unfolding pyobjc_hint_def sublist_def
    by (rule exI [of _ "[CHR 0x0A, CHR 0x0A] @ ''macOS detected but ''"],
        rule exI [of _ "'' is not installed. Install with:'' @ [CHR 0x0A]
              @ ''  pip install pyobjc-core pyobjc-framework-Cocoa pyobjc-framework-Quartz''"])
       simp
  have c: "pywin32_hint \<noteq> []" "pyobjc_hint \<noteq> []"
    by (simp_all add: pywin32_hint_def pyobjc_hint_def)
  show ?thesis
    using a b c by (simp add: create_window_tracker_def Let_def)
qed

theorem create_window_tracker_selects_witness:
  "create_window_tracker \<lparr>sys_platform = ''win32'', WINDOWS_AVAILABLE = False, MACOS_AVAILABLE = True\<rparr>
     = Inl (unsupported_msg ''win32'' @ pywin32_hint)
   \<and> create_window_tracker \<lparr>sys_platform = ''darwin'', WINDOWS_AVAILABLE = True, MACOS_AVAILABLE = True\<rparr>
     = Inr MacOSWindowTracker
   \<and> create_window_tracker \<lparr>sys_platform = ''linux'', WINDOWS_AVAILABLE = False, MACOS_AVAILABLE = False\<rparr>
     = Inl (unsupported_msg ''linux'')"
  using create_window_tracker_selects
    [of "\<lparr>sys_platform = ''win32'', WINDOWS_AVAILABLE = False, MACOS_AVAILABLE = True\<rparr>"]
    create_window_tracker_selects
    [of "\<lparr>sys_platform = ''darwin'', WINDOWS_AVAILABLE = True, MACOS_AVAILABLE = True\<rparr>"]
    create_window_tracker_selects
    [of "\<lparr>sys_platform = ''linux'', WINDOWS_AVAILABLE = False, MACOS_AVAILABLE = False\<rparr>"]
  by (simp add: windows_is_supported_def macos_is_supported_def)

section \<open>The reconciliation cycle, record by record\<close>

lemma sim_entry_reconcile:
  "sim_entry clk i act (h, ti, p) s = reconcile_entry clk i (h, ti, p, h = act) s"
  by (simp add: sim_entry_def reconcile_entry_def upsert_def Let_def split: option.splits)

lemma update_times_is_active:
  "(update_times w i a n1 n2)\<lparr>title := ti, is_visible := v, is_active := a\<rparr>
     = (update_times w i a n1 n2)\<lparr>title := ti, is_visible := v\<rparr>"
  by (cases w) (simp add: update_times_def Let_def)

lemma native_entry_reconcile:
  "native_entry clk i (native_window_info clk' t (h, ti, p, a)) s = reconcile_entry clk i (h, ti, p, a) s"
  by (simp add: native_entry_def reconcile_entry_def upsert_def native_window_info_def Let_def
      update_times_is_active split: option.splits)

lemma fold_sim_entry:
  "fold (sim_entry clk i act) ws s
     = fold (reconcile_entry clk i) (map (\<lambda>(h, ti, p). (h, ti, p, h = act)) ws) s"
  by (induction ws arbitrary: s) (auto simp: sim_entry_reconcile)

lemma fold_native_entry:
  "fold (native_entry clk i) (native_windows clk' t raw) s = fold (reconcile_entry clk i) raw s"
  by (induction raw arbitrary: s t) (auto simp: native_entry_reconcile)

lemma hwnd_native_windows: "map hwnd (native_windows clk t raw) = map fst raw"
  by (induction raw arbitrary: t) (auto simp: native_window_info_def)

lemma lookup_alt: "lookup s h = map_option (store s) (map_of (windows s) h)"
  by (simp add: lookup_def get_window_def)

lemma tracked_alt: "h \<in> tracked s \<longleftrightarrow> map_of (windows s) h \<noteq> None"
  by (simp add: tracked_def map_of_eq_None_iff)

lemma wf_upsert: "well_formed s \<Longrightarrow> well_formed (upsert h f w s)"
  by (auto simp: well_formed_def upsert_def map_of_eq_None_iff image_iff split: option.splits
      dest: less_SucI)

lemma windows_upsert:
  "windows (upsert h f w s) = (if h \<in> tracked s then windows s else windows s @ [(h, next_ref s)])"
  by (auto simp: upsert_def tracked_alt split: option.splits)

lemma map_of_distinct_snd:
  "distinct (map snd xs) \<Longrightarrow> map_of xs h = Some r \<Longrightarrow> map_of xs h' = Some r \<Longrightarrow> h = h'"
  by (induction xs) (auto split: if_splits dest!: map_of_SomeD simp: image_iff)

lemma lookup_upsert:
  assumes "well_formed s"
  shows "lookup (upsert h f w s) h'
     = (if h' = h then Some (case lookup s h of Some x \<Rightarrow> f x | None \<Rightarrow> w) else lookup s h')"
proof (cases "map_of (windows s) h")
  case None
  have "\<And>r. map_of (windows s) h' = Some r \<Longrightarrow> r \<noteq> next_ref s"
    using assms by (force simp: well_formed_def dest!: map_of_SomeD)
  with None show ?thesis
    by (cases "map_of (windows s) h'") (auto simp: lookup_alt upsert_def map_add_def)
next
  case (Some r)
  have "\<And>r'. h' \<noteq> h \<Longrightarrow> map_of (windows s) h' = Some r' \<Longrightarrow> r' \<noteq> r"
    using assms Some map_of_distinct_snd [of "windows s" h' r h] by (auto simp: well_formed_def)
  with Some show ?thesis
    by (cases "map_of (windows s) h'") (auto simp: lookup_alt upsert_def)
qed

lemma get_window_upsert:
  "get_window s h' = Some r \<Longrightarrow> get_window (upsert h f w s) h' = Some r"
  by (auto simp: get_window_def upsert_def map_add_def split: option.splits)

lemma upsert_fields [simp]:
  "ticks (upsert h f w s) = ticks s + 2" "running (upsert h f w s) = running s"
  "last_update_time (upsert h f w s) = last_update_time s"
  "simulation_mode (upsert h f w s) = simulation_mode s"
  "effects (upsert h f w s) = effects s"
  "window_tracker (upsert h f w s) = window_tracker s"
  by (auto simp: upsert_def split: option.splits)


lemma wf_reconcile_entry: "well_formed s \<Longrightarrow> well_formed (reconcile_entry clk i e s)"
  by (cases e) (simp add: reconcile_entry_def wf_upsert)

lemma lookup_reconcile_entry:
  "well_formed s \<Longrightarrow> lookup (reconcile_entry clk i e s) h
     = (if h = fst e then Some (entry_value clk i (ticks s) e (lookup s (fst e))) else lookup s h)"
  by (cases e) (simp add: reconcile_entry_def lookup_upsert entry_value_def split: option.splits)

lemma get_window_reconcile_entry:
  "get_window s h = Some r \<Longrightarrow> get_window (reconcile_entry clk i e s) h = Some r"
  by (cases e) (simp add: reconcile_entry_def get_window_upsert)

lemma windows_reconcile_entry:
  "\<exists>ys. windows (reconcile_entry clk i e s) = windows s @ ys"
  by (cases e) (simp add: reconcile_entry_def windows_upsert)

lemma tracked_reconcile_entry:
  "tracked (reconcile_entry clk i e s) = insert (fst e) (tracked s)"
  by (cases e) (auto simp: reconcile_entry_def windows_upsert tracked_def)

lemma reconcile_entry_fields [simp]:
  "ticks (reconcile_entry clk i e s) = ticks s + 2"
  "running (reconcile_entry clk i e s) = running s"
  "last_update_time (reconcile_entry clk i e s) = last_update_time s"
  "simulation_mode (reconcile_entry clk i e s) = simulation_mode s"
  "effects (reconcile_entry clk i e s) = effects s"
  "window_tracker (reconcile_entry clk i e s) = window_tracker s"
  by (cases e; simp add: reconcile_entry_def)+

lemma wf_fold: "well_formed s \<Longrightarrow> well_formed (fold (reconcile_entry clk i) rep s)"
  by (induction rep arbitrary: s) (simp_all add: wf_reconcile_entry)

lemma fold_fields [simp]:
  "ticks (fold (reconcile_entry clk i) rep s) = ticks s + 2 * length rep"
  "running (fold (reconcile_entry clk i) rep s) = running s"
  "last_update_time (fold (reconcile_entry clk i) rep s) = last_update_time s"
  "simulation_mode (fold (reconcile_entry clk i) rep s) = simulation_mode s"
  "effects (fold (reconcile_entry clk i) rep s) = effects s"
  "window_tracker (fold (reconcile_entry clk i) rep s) = window_tracker s"
  by (induction rep arbitrary: s; simp)+

lemma get_window_fold:
  "get_window s h = Some r \<Longrightarrow> get_window (fold (reconcile_entry clk i) rep s) h = Some r"
  by (induction rep arbitrary: s) (simp_all add: get_window_reconcile_entry)

lemma windows_fold: "\<exists>ys. windows (fold (reconcile_entry clk i) rep s) = windows s @ ys"
proof (induction rep arbitrary: s)
  case Nil
  then show ?case by simp
next
  case (Cons e rep)
  obtain ys where "windows (reconcile_entry clk i e s) = windows s @ ys"
    using windows_reconcile_entry by blast
  moreover obtain zs where "windows (fold (reconcile_entry clk i) rep (reconcile_entry clk i e s))
      = windows (reconcile_entry clk i e s) @ zs"
    using Cons.IH by blast
  ultimately show ?case by simp
qed

lemma tracked_fold: "tracked (fold (reconcile_entry clk i) rep s) = tracked s \<union> fst ` set rep"
  by (induction rep arbitrary: s) (auto simp: tracked_reconcile_entry)

lemma lookup_fold_other:
  "well_formed s \<Longrightarrow> h \<notin> fst ` set rep \<Longrightarrow> lookup (fold (reconcile_entry clk i) rep s) h = lookup s h"
  by (induction rep arbitrary: s) (auto simp: wf_reconcile_entry lookup_reconcile_entry)

lemma mark_not_visible_fields [simp]:
  "windows (mark_not_visible c h s) = windows s"
  "next_ref (mark_not_visible c h s) = next_ref s"
  "ticks (mark_not_visible c h s) = ticks s"
  "running (mark_not_visible c h s) = running s"
  "last_update_time (mark_not_visible c h s) = last_update_time s"
  "simulation_mode (mark_not_visible c h s) = simulation_mode s"
  "effects (mark_not_visible c h s) = effects s"
  "window_tracker (mark_not_visible c h s) = window_tracker s"
  by (auto simp: mark_not_visible_def split: option.splits)

lemma fold_mark_fields [simp]:
  "windows (fold (mark_not_visible c) ks s) = windows s"
  "next_ref (fold (mark_not_visible c) ks s) = next_ref s"
  "ticks (fold (mark_not_visible c) ks s) = ticks s"
  "running (fold (mark_not_visible c) ks s) = running s"
  "last_update_time (fold (mark_not_visible c) ks s) = last_update_time s"
  "simulation_mode (fold (mark_not_visible c) ks s) = simulation_mode s"
  "effects (fold (mark_not_visible c) ks s) = effects s"
  "window_tracker (fold (mark_not_visible c) ks s) = window_tracker s"
  by (induction ks arbitrary: s; simp)+

lemma wf_fields: "windows s' = windows s \<Longrightarrow> next_ref s' = next_ref s \<Longrightarrow> well_formed s' = well_formed s"
  by (simp add: well_formed_def)

lemma lookup_mark_not_visible:
  assumes "well_formed s"
  shows "lookup (mark_not_visible c k s) h
     = (if h = k \<and> k \<notin> c then map_option (\<lambda>w. w\<lparr>is_visible := False\<rparr>) (lookup s h)
        else lookup s h)"
proof (cases "map_of (windows s) k")
  case None
  then show ?thesis by (auto simp: mark_not_visible_def lookup_alt)
next
  case (Some r)
  have "\<And>r'. h \<noteq> k \<Longrightarrow> map_of (windows s) h = Some r' \<Longrightarrow> r' \<noteq> r"
    using assms Some map_of_distinct_snd [of "windows s" h r k] by (auto simp: well_formed_def)
  with Some show ?thesis
    by (cases "map_of (windows s) h") (auto simp: mark_not_visible_def lookup_alt)
qed

lemma lookup_fold_mark:
  "well_formed s \<Longrightarrow> lookup (fold (mark_not_visible c) ks s) h
     = (if h \<in> set ks \<and> h \<notin> c then map_option (\<lambda>w. w\<lparr>is_visible := False\<rparr>) (lookup s h)
        else lookup s h)"
proof (induction ks arbitrary: s)
  case Nil
  then show ?case by simp
next
  case (Cons k ks)
  have "well_formed (mark_not_visible c k s)"
    using Cons.prems by (simp add: wf_fields [of "mark_not_visible c k s" s])
  then show ?case
    using Cons.IH [of "mark_not_visible c k s"] Cons.prems
    by (cases "lookup s h") (auto simp: lookup_mark_not_visible)
qed

lemma lookup_mark_all:
  "well_formed s \<Longrightarrow> lookup (mark_all c s) h
     = (if h \<in> c then lookup s h else map_option (\<lambda>w. w\<lparr>is_visible := False\<rparr>) (lookup s h))"
proof -
  assume w: "well_formed s"
  have "h \<in> set (map fst (windows s)) \<longleftrightarrow> lookup s h \<noteq> None"
    by (simp add: lookup_alt map_of_eq_None_iff)
  then show ?thesis
    using lookup_fold_mark [OF w, of c "map fst (windows s)" h]
    by (cases "lookup s h") (auto simp: mark_all_def)
qed

lemma mark_all_fields [simp]:
  "windows (mark_all c s) = windows s"
  "next_ref (mark_all c s) = next_ref s"
  "ticks (mark_all c s) = ticks s"
  "running (mark_all c s) = running s"
  "last_update_time (mark_all c s) = last_update_time s"
  "simulation_mode (mark_all c s) = simulation_mode s"
  "effects (mark_all c s) = effects s"
  "window_tracker (mark_all c s) = window_tracker s"
  by (simp_all add: mark_all_def)


lemma fst_sim_report: "fst ` (\<lambda>(h, ti, p). (h, ti, p, h = act)) ` set ws = fst ` set ws"
  by force

lemma update_windows_report:
  assumes "report (simulation_mode s) env = Some rep"
  shows "\<exists>k\<ge>ticks s. update_windows clk env i s = (None, reconcile clk i rep (s\<lparr>ticks := k\<rparr>))"
proof (cases "simulation_mode s")
  case True
  then have "update_windows clk env i s = (None, reconcile clk i rep (s\<lparr>ticks := ticks s\<rparr>))"
    using assms
    by (auto simp: update_windows_def report_def reconcile_def fold_sim_entry fst_sim_report
        split: sum.splits)
  then show ?thesis by blast
next
  case False
  then obtain a where "enumerate_windows env = Inr rep" "get_active_window_handle env = Inr a"
    using assms by (auto simp: report_def split: sum.splits)
  then have "update_windows clk env i s
      = (None, reconcile clk i rep (s\<lparr>ticks := ticks s + 2 * length rep\<rparr>))"
    using False
    by (simp add: update_windows_def reconcile_def fold_native_entry Let_def
        hwnd_native_windows [symmetric] del: set_map)
       (simp add: hwnd_native_windows)
  then show ?thesis
    by (metis le_add1)
qed

lemma report_source_error: "report sim env = None \<longleftrightarrow> source_error sim env \<noteq> None"
  by (auto simp: report_def source_error_def split: sum.splits)

lemma update_windows_raised:
  assumes "source_error (simulation_mode s) env = Some e"
  shows "\<exists>k\<ge>ticks s. update_windows clk env i s = (Some e, s\<lparr>ticks := k\<rparr>)"
proof (cases "simulation_mode s")
  case True
  then have "update_windows clk env i s = (Some e, s\<lparr>ticks := ticks s\<rparr>)"
    using assms by (auto simp: update_windows_def source_error_def split: sum.splits)
  then show ?thesis by blast
next
  case False
  show ?thesis
  proof (cases "enumerate_windows env")
    case (Inl e')
    then have "update_windows clk env i s = (Some e, s\<lparr>ticks := ticks s\<rparr>)"
      using False assms by (simp add: update_windows_def source_error_def)
    then show ?thesis by blast
  next
    case (Inr raw)
    then have "get_active_window_handle env = Inl e"
      using assms False by (auto simp: source_error_def split: sum.splits)
    then have "update_windows clk env i s = (Some e, s\<lparr>ticks := ticks s + 2 * length raw\<rparr>)"
      using False Inr by (simp add: update_windows_def Let_def)
    then show ?thesis by (metis le_add1)
  qed
qed

lemma poll_success:
  assumes "polled s env = Some rep"
  shows "\<exists>k prev. ticks s < k \<and> last_update_time s = Some prev
     \<and> step clk (Poll env) s
       = (reconcile clk (clk (ticks s) - prev) rep
            (s\<lparr>last_update_time := Some (clk (ticks s)), ticks := k\<rparr>))
         \<lparr>effects := effects s @ [Sleep WINDOW_ENUMERATION_INTERVAL]\<rparr>"
proof -
  from assms obtain prev where r: "running s" and l: "last_update_time s = Some prev"
    and rep: "report (simulation_mode s) env = Some rep"
    by (auto simp: polled_def split: if_splits)
  let ?s2 = "s\<lparr>ticks := ticks s + 1, last_update_time := Some (clk (ticks s))\<rparr>"
  from rep have "report (simulation_mode ?s2) env = Some rep" by simp
  from update_windows_report [OF this, of clk "clk (ticks s) - prev"]
  obtain k where k: "ticks ?s2 \<le> k"
    and u: "update_windows clk env (clk (ticks s) - prev) ?s2
       = (None, reconcile clk (clk (ticks s) - prev) rep (?s2\<lparr>ticks := k\<rparr>))"
    by blast
  have "step clk (Poll env) s
       = (reconcile clk (clk (ticks s) - prev) rep
            (s\<lparr>last_update_time := Some (clk (ticks s)), ticks := k\<rparr>))
         \<lparr>effects := effects s @ [Sleep WINDOW_ENUMERATION_INTERVAL]\<rparr>"
    using r l u by (simp add: tracking_cycle_def Let_def reconcile_def)
  moreover have "ticks s < k" using k by simp
  ultimately show ?thesis using l by blast
qed

lemma poll_raised:
  assumes "running s" and "last_update_time s = Some prev"
    and "source_error (simulation_mode s) env = Some e"
  shows "\<exists>k>ticks s. tracking_cycle clk env s
     = s\<lparr>last_update_time := Some (clk (ticks s)), ticks := k,
          effects := effects s @ [LogError (''Error in tracking loop: '' @ e),
                                  Sleep WINDOW_ENUMERATION_INTERVAL]\<rparr>"
proof -
  let ?s2 = "s\<lparr>ticks := ticks s + 1, last_update_time := Some (clk (ticks s))\<rparr>"
  have "source_error (simulation_mode ?s2) env = Some e"
    using assms by simp
  from update_windows_raised [OF this, of clk "clk (ticks s) - prev"]
  obtain k where k: "ticks ?s2 \<le> k"
    and u: "update_windows clk env (clk (ticks s) - prev) ?s2 = (Some e, ?s2\<lparr>ticks := k\<rparr>)"
    by blast
  have "tracking_cycle clk env s
      = s\<lparr>last_update_time := Some (clk (ticks s)), ticks := k, effects := effects s @
           [LogError (''Error in tracking loop: '' @ e), Sleep WINDOW_ENUMERATION_INTERVAL]\<rparr>"
    using assms u by (simp add: tracking_cycle_def Let_def)
  moreover have "ticks s < k" using k by simp
  ultimately show ?thesis by blast
qed

lemma poll_type_error:
  assumes "last_update_time s = None"
  shows "tracking_cycle clk env s
     = s\<lparr>ticks := ticks s + 1,
          effects := effects s @ [LogError (''Error in tracking loop: '' @ type_error),
                                  Sleep WINDOW_ENUMERATION_INTERVAL]\<rparr>"
  using assms by (simp add: tracking_cycle_def)

lemma poll_failure:
  assumes "polled s env = None"
  shows "\<exists>k l es. ticks s \<le> k \<and> (last_update_time s \<noteq> None \<longrightarrow> l \<noteq> None)
     \<and> step clk (Poll env) s = s\<lparr>last_update_time := l, ticks := k, effects := effects s @ es\<rparr>"
proof (cases "running s")
  case False
  then have "step clk (Poll env) s
      = s\<lparr>last_update_time := last_update_time s, ticks := ticks s, effects := effects s @ []\<rparr>"
    by simp
  then show ?thesis by blast
next
  case True
  show ?thesis
  proof (cases "last_update_time s")
    case None
    then have "step clk (Poll env) s
      = s\<lparr>last_update_time := None, ticks := ticks s + 1, effects := effects s @
           [LogError (''Error in tracking loop: '' @ type_error), Sleep WINDOW_ENUMERATION_INTERVAL]\<rparr>"
      using True by (simp add: poll_type_error)
    then show ?thesis using None by (metis le_add1)
  next
    case (Some prev)
    then obtain e where "source_error (simulation_mode s) env = Some e"
      using assms True by (auto simp: polled_def report_source_error)
    from poll_raised [OF True Some this, of clk] obtain k where "ticks s < k"
      "step clk (Poll env) s
        = s\<lparr>last_update_time := Some (clk (ticks s)), ticks := k, effects := effects s @
           [LogError (''Error in tracking loop: '' @ e), Sleep WINDOW_ENUMERATION_INTERVAL]\<rparr>"
      using True by auto
    then show ?thesis by (metis less_imp_le option.distinct(1))
  qed
qed

lemma wf_reconcile: "well_formed s \<Longrightarrow> well_formed (reconcile clk i rep s)"
  by (simp add: reconcile_def wf_fold
      wf_fields [of "mark_all (fst ` set rep) (fold (reconcile_entry clk i) rep s)"
                    "fold (reconcile_entry clk i) rep s"])

lemma lookup_reconcile:
  "well_formed s \<Longrightarrow> lookup (reconcile clk i rep s) h
     = (if h \<in> fst ` set rep then lookup (fold (reconcile_entry clk i) rep s) h
        else map_option (\<lambda>w. w\<lparr>is_visible := False\<rparr>) (lookup s h))"
  by (simp add: reconcile_def lookup_mark_all wf_fold lookup_fold_other)

lemma get_window_reconcile:
  "get_window s h = Some r \<Longrightarrow> get_window (reconcile clk i rep s) h = Some r"
  using get_window_fold [of s h r clk i rep] by (simp add: reconcile_def get_window_def)

lemma windows_reconcile: "\<exists>ys. windows (reconcile clk i rep s) = windows s @ ys"
  using windows_fold [of clk i rep s] by (simp add: reconcile_def)

lemma tracked_reconcile: "tracked (reconcile clk i rep s) = tracked s \<union> fst ` set rep"
  using tracked_fold [of clk i rep s] by (simp add: reconcile_def tracked_def)

lemma entry_value_fields [simp]:
  "title (entry_value clk i t (h, ti, p, a) old) = ti"
  "is_visible (entry_value clk i t (h, ti, p, a) old) = True"
  "is_active (entry_value clk i t (h, ti, p, a) old) = a"
  by (auto simp: entry_value_def update_times_def Let_def split: option.splits)

lemma entry_value_Some [simp]:
  "process_name (entry_value clk i t e (Some w)) = process_name w"
  "first_seen (entry_value clk i t e (Some w)) = first_seen w"
  "hwnd (entry_value clk i t e (Some w)) = hwnd w"
  "total_open_time (entry_value clk i t e (Some w)) = clk (t + 1) - first_seen w"
  "last_seen (entry_value clk i t e (Some w)) = clk t"
  "active_time (entry_value clk i t e (Some w))
     = active_time w + (if snd (snd (snd e)) then i else 0)"
  by (cases e; auto simp: entry_value_def update_times_def Let_def)+

lemma entry_value_None:
  "entry_value clk i t (h, ti, p, a) None
     = \<lparr>hwnd = h, title = ti, process_name = p, first_seen = clk t, last_seen = clk (t + 1),
        total_open_time = 0, active_time = 0, is_active = a, is_visible = True\<rparr>"
  by (simp add: entry_value_def)

lemma fold_snoc: "fold f (xs @ [x]) s = f x (fold f xs s)"
  by simp

lemma fold_last_entry:
  assumes "well_formed s"
  shows "find (\<lambda>e. fst e = h) (rev rep) = Some (h0, ti, p, a) \<Longrightarrow>
     \<exists>w. lookup (fold (reconcile_entry clk i) rep s) h = Some w
        \<and> title w = ti \<and> is_active w = a \<and> is_visible w"
proof (induction rep rule: rev_induct)
  case Nil
  then show ?case by simp
next
  case (snoc x xs)
  have w: "well_formed (fold (reconcile_entry clk i) xs s)" using assms by (rule wf_fold)
  show ?case
  proof (cases "fst x = h")
    case True
    with snoc.prems have "x = (h, ti, p, a)" by auto
    then show ?thesis
      by (simp add: lookup_reconcile_entry [OF w])
  next
    case False
    with snoc show ?thesis
      by (simp add: lookup_reconcile_entry [OF w])
  qed
qed

lemma fold_preserves:
  assumes "well_formed s" and "lookup s h = Some w"
  shows "\<exists>w'. lookup (fold (reconcile_entry clk i) rep s) h = Some w'
     \<and> process_name w' = process_name w \<and> first_seen w' = first_seen w \<and> hwnd w' = hwnd w"
proof (induction rep rule: rev_induct)
  case Nil
  then show ?case using assms by simp
next
  case (snoc x xs)
  have w: "well_formed (fold (reconcile_entry clk i) xs s)" using assms(1) by (rule wf_fold)
  from snoc show ?case
    by (auto simp: lookup_reconcile_entry [OF w])
qed

lemma fold_single:
  assumes "well_formed s"
  shows "filter (\<lambda>e. fst e = h) rep = [e] \<Longrightarrow>
     \<exists>n\<ge>ticks s. lookup (fold (reconcile_entry clk i) rep s) h
        = Some (entry_value clk i n e (lookup s h))"
proof (induction rep rule: rev_induct)
  case Nil
  then show ?case by simp
next
  case (snoc x xs)
  have w: "well_formed (fold (reconcile_entry clk i) xs s)" using assms by (rule wf_fold)
  show ?case
  proof (cases "fst x = h")
    case True
    with snoc.prems have x: "x = e" and "filter (\<lambda>e. fst e = h) xs = []" by auto
    then have "h \<notin> fst ` set xs" by (auto simp: filter_empty_conv)
    then have "lookup (fold (reconcile_entry clk i) xs s) h = lookup s h"
      using assms by (simp add: lookup_fold_other)
    then have "lookup (fold (reconcile_entry clk i) (xs @ [x]) s) h
        = Some (entry_value clk i (ticks s + 2 * length xs) e (lookup s h))"
      using True x by (simp add: lookup_reconcile_entry [OF w])
    then show ?thesis by (metis le_add1)
  next
    case False
    with snoc show ?thesis
      by (simp add: lookup_reconcile_entry [OF w])
  qed
qed

lemma time_inv_entry:
  assumes "mono clk" and "well_formed s" and "time_inv clk s"
  shows "time_inv clk (reconcile_entry clk i e s)"
proof -
  have a: "clk (ticks s) \<le> clk (ticks s + 2)" "clk (Suc (ticks s)) \<le> clk (ticks s + 2)"
    using assms(1) by (auto intro: monoD)
  obtain h ti p a where e: "e = (h, ti, p, a)" by (cases e)
  show ?thesis
    unfolding time_inv_def
  proof (intro allI impI)
    fix h' w'
    assume l: "lookup (reconcile_entry clk i e s) h' = Some w'"
    show "first_seen w' + total_open_time w' \<le> clk (ticks (reconcile_entry clk i e s))"
    proof (cases "h' = fst e")
      case False
      with l have "lookup s h' = Some w'" using assms(2) by (simp add: lookup_reconcile_entry)
      then show ?thesis using assms(3) a by (force simp: time_inv_def)
    next
      case True
      with l have w': "w' = entry_value clk i (ticks s) e (lookup s (fst e))"
        using assms(2) by (simp add: lookup_reconcile_entry)
      show ?thesis
        using a by (cases "lookup s (fst e)") (simp_all add: w' e entry_value_None)
    qed
  qed
qed

lemma time_step_entry:
  assumes "mono clk" and "well_formed s" and "time_inv clk s" and "lookup s h = Some w"
  shows "\<exists>w'. lookup (reconcile_entry clk i e s) h = Some w'
     \<and> total_open_time w \<le> total_open_time w'
     \<and> active_time w' = active_time w + i * int (focus_count [e] h)"
proof -
  have "clk (ticks s) \<le> clk (Suc (ticks s))"
    using assms(1) by (auto intro: monoD)
  moreover have "first_seen w + total_open_time w \<le> clk (ticks s)"
    using assms(3,4) by (simp add: time_inv_def)
  ultimately show ?thesis
    using assms(2,4) by (cases e) (auto simp: lookup_reconcile_entry focus_count_def)
qed

lemma focus_count_Cons: "focus_count (e # rep) h = focus_count [e] h + focus_count rep h"
  by (simp add: focus_count_def)

lemma time_fold:
  assumes "mono clk"
  shows "well_formed s \<Longrightarrow> time_inv clk s \<Longrightarrow>
     time_inv clk (fold (reconcile_entry clk i) rep s)
     \<and> (\<forall>h w. lookup s h = Some w \<longrightarrow>
          (\<exists>w'. lookup (fold (reconcile_entry clk i) rep s) h = Some w'
             \<and> total_open_time w \<le> total_open_time w'
             \<and> active_time w' = active_time w + i * int (focus_count rep h)))"
proof (induction rep arbitrary: s)
  case Nil
  then show ?case by (simp add: focus_count_def)
next
  case (Cons e rep)
  let ?s1 = "reconcile_entry clk i e s"
  have w1: "well_formed ?s1" using Cons.prems by (simp add: wf_reconcile_entry)
  have t1: "time_inv clk ?s1" using assms Cons.prems by (simp add: time_inv_entry)
  note ih = Cons.IH [OF w1 t1]
  show ?case
  proof (intro conjI allI impI)
    show "time_inv clk (fold (reconcile_entry clk i) (e # rep) s)"
      using ih by simp
  next
    fix h w
    assume "lookup s h = Some w"
    from time_step_entry [OF assms Cons.prems this, of i e]
    obtain w1 where 1: "lookup ?s1 h = Some w1" "total_open_time w \<le> total_open_time w1"
      "active_time w1 = active_time w + i * int (focus_count [e] h)" by blast
    with ih obtain w' where 2: "lookup (fold (reconcile_entry clk i) rep ?s1) h = Some w'"
      "total_open_time w1 \<le> total_open_time w'"
      "active_time w' = active_time w1 + i * int (focus_count rep h)" by blast
    show "\<exists>w'. lookup (fold (reconcile_entry clk i) (e # rep) s) h = Some w'
             \<and> total_open_time w \<le> total_open_time w'
             \<and> active_time w' = active_time w + i * int (focus_count (e # rep) h)"
      using 1 2 by (simp add: focus_count_Cons [of e rep] algebra_simps)
  qed
qed


lemma well_formed_updates [simp]:
  "well_formed (s\<lparr>effects := e\<rparr>) = well_formed s"
  "well_formed (s\<lparr>ticks := t\<rparr>) = well_formed s"
  "well_formed (s\<lparr>last_update_time := l\<rparr>) = well_formed s"
  "well_formed (s\<lparr>running := r\<rparr>) = well_formed s"
  by (simp_all add: well_formed_def)

lemma lookup_updates [simp]:
  "lookup (s\<lparr>effects := e\<rparr>) h = lookup s h"
  "lookup (s\<lparr>ticks := t\<rparr>) h = lookup s h"
  "lookup (s\<lparr>last_update_time := l\<rparr>) h = lookup s h"
  "lookup (s\<lparr>running := r\<rparr>) h = lookup s h"
  by (simp_all add: lookup_alt)

lemma get_window_updates [simp]:
  "get_window (s\<lparr>effects := e\<rparr>) h = get_window s h"
  "get_window (s\<lparr>ticks := t\<rparr>) h = get_window s h"
  "get_window (s\<lparr>last_update_time := l\<rparr>) h = get_window s h"
  "get_window (s\<lparr>running := r\<rparr>) h = get_window s h"
  by (simp_all add: get_window_def)

lemma tracked_updates [simp]:
  "tracked (s\<lparr>effects := e\<rparr>) = tracked s"
  "tracked (s\<lparr>ticks := t\<rparr>) = tracked s"
  "tracked (s\<lparr>last_update_time := l\<rparr>) = tracked s"
  "tracked (s\<lparr>running := r\<rparr>) = tracked s"
  by (simp_all add: tracked_def)

lemma tracked_lookup: "h \<in> tracked s \<longleftrightarrow> lookup s h \<noteq> None"
  by (simp add: tracked_alt lookup_alt)

lemma well_formed_new: "well_formed (new_tracker mode wt)"
  by (simp add: well_formed_def new_tracker_def)

lemma invariant_new: "invariant (new_tracker mode wt)"
  by (simp add: invariant_def well_formed_new) (simp add: new_tracker_def)

lemma invariant_step:
  assumes "invariant s"
  shows "invariant (step clk op s)"
proof (cases op)
  case Start
  then show ?thesis using assms by (auto simp: invariant_def start_def)
next
  case Stop
  then show ?thesis using assms by (auto simp: invariant_def stop_def)
next
  case Clear
  then show ?thesis using assms by (auto simp: invariant_def clear_def well_formed_def)
next
  case (Poll env)
  show ?thesis
  proof (cases "polled s env")
    case None
    from poll_failure [OF this, of clk] obtain k l es where
      l: "last_update_time s \<noteq> None \<longrightarrow> l \<noteq> None" and
      s': "step clk (Poll env) s = s\<lparr>last_update_time := l, ticks := k, effects := effects s @ es\<rparr>"
      by blast
    show ?thesis
      using assms l unfolding Poll s' by (auto simp: invariant_def)
  next
    case (Some rep)
    from poll_success [OF this, of clk] obtain k prev where
      s': "step clk (Poll env) s
       = (reconcile clk (clk (ticks s) - prev) rep
            (s\<lparr>last_update_time := Some (clk (ticks s)), ticks := k\<rparr>))
         \<lparr>effects := effects s @ [Sleep WINDOW_ENUMERATION_INTERVAL]\<rparr>" by blast
    let ?s2 = "s\<lparr>last_update_time := Some (clk (ticks s)), ticks := k\<rparr>"
    have "well_formed ?s2" using assms by (simp add: invariant_def)
    then have "well_formed (reconcile clk (clk (ticks s) - prev) rep ?s2)"
      by (rule wf_reconcile)
    moreover have "last_update_time (reconcile clk (clk (ticks s) - prev) rep ?s2) \<noteq> None"
      by (simp add: reconcile_def)
    ultimately show ?thesis
      unfolding Poll s' by (simp add: invariant_def)
  qed
qed

lemma TimeTracker_init_new:
  "TimeTracker_init p mode = Inr s \<Longrightarrow> \<exists>wt. s = new_tracker mode wt"
  by (auto simp: TimeTracker_init_def split: if_splits sum.splits)

lemma invariant_run: "invariant s \<Longrightarrow> invariant (run clk ops s)"
  unfolding run_def by (induction ops arbitrary: s) (simp_all add: invariant_step)

lemma invariant_reachable: "invariant (run clk ops (new_tracker mode wt))"
  by (simp add: invariant_run invariant_new)

lemma poll_lookup:
  assumes "invariant s" and "polled s env = Some rep"
  obtains k prev where "ticks s < k" and "last_update_time s = Some prev"
    and "well_formed (s\<lparr>last_update_time := Some (clk (ticks s)), ticks := k\<rparr>)"
    and "\<And>h. lookup (step clk (Poll env) s) h
          = (if h \<in> fst ` set rep
             then lookup (fold (reconcile_entry clk (clk (ticks s) - prev)) rep
                    (s\<lparr>last_update_time := Some (clk (ticks s)), ticks := k\<rparr>)) h
             else map_option (\<lambda>w. w\<lparr>is_visible := False\<rparr>) (lookup s h))"
proof -
  from poll_success [OF assms(2), of clk] obtain k prev where k: "ticks s < k"
    and l: "last_update_time s = Some prev" and
    s': "step clk (Poll env) s
       = (reconcile clk (clk (ticks s) - prev) rep
            (s\<lparr>last_update_time := Some (clk (ticks s)), ticks := k\<rparr>))
         \<lparr>effects := effects s @ [Sleep WINDOW_ENUMERATION_INTERVAL]\<rparr>" by blast
  let ?s2 = "s\<lparr>last_update_time := Some (clk (ticks s)), ticks := k\<rparr>"
  have w: "well_formed ?s2" using assms(1) by (simp add: invariant_def)
  have "lookup (step clk (Poll env) s) h
          = (if h \<in> fst ` set rep
             then lookup (fold (reconcile_entry clk (clk (ticks s) - prev)) rep ?s2) h
             else map_option (\<lambda>w. w\<lparr>is_visible := False\<rparr>) (lookup s h))" for h
    unfolding s' by (simp add: lookup_reconcile [OF w])
  then show thesis using that [of k prev] k l w by blast
qed


lemma find_rev_Some:
  assumes "h \<in> fst ` set rep"
  shows "\<exists>e. find (\<lambda>e. fst e = h) (rev rep) = Some e"
proof -
  from assms obtain x where "x \<in> set (rev rep)" "fst x = h" by auto
  then have "find (\<lambda>e. fst e = h) (rev rep) \<noteq> None"
    unfolding find_None_iff by blast
  then show ?thesis by blast
qed

lemma tracked_step:
  assumes "invariant s" and "h \<in> tracked s" and "op \<noteq> Clear"
  shows "h \<in> tracked (step clk op s)"
proof (cases op)
  case Start
  then show ?thesis using assms by (auto simp: start_def)
next
  case Stop
  then show ?thesis using assms by (auto simp: stop_def)
next
  case Clear
  then show ?thesis using assms by simp
next
  case (Poll env)
  show ?thesis
  proof (cases "polled s env")
    case None
    from poll_failure [OF this, of clk] obtain k l es where
      s': "step clk (Poll env) s = s\<lparr>last_update_time := l, ticks := k, effects := effects s @ es\<rparr>"
      by blast
    show ?thesis using assms(2) unfolding Poll s' by simp
  next
    case (Some rep)
    from poll_success [OF this, of clk] obtain k prev where
      s': "step clk (Poll env) s
       = (reconcile clk (clk (ticks s) - prev) rep
            (s\<lparr>last_update_time := Some (clk (ticks s)), ticks := k\<rparr>))
         \<lparr>effects := effects s @ [Sleep WINDOW_ENUMERATION_INTERVAL]\<rparr>" by blast
    show ?thesis using assms(2) unfolding Poll s' by (simp add: tracked_reconcile)
  qed
qed

lemmas eval_defs = run_def start_def stop_def clear_def new_tracker_def tracking_cycle_def
  update_windows_def sim_reports_def sim_entry_def mark_all_def mark_not_visible_def lookup_def
  get_window_def get_all_windows_def deref_def tracked_def update_times_def polled_def
  report_def clock_of_def demo_clock_def editor_only_def browser_only_def Let_def

section \<open>Retention and visibility\<close>

text \<open>
  C5. In every state reached from a new tracker, an identifier that is tracked stays tracked
  under every operation other than \<open>clear()\<close>; a cycle whose snapshot omits it leaves its
  record as it was except for \<open>is_visible\<close>, which becomes false; and \<open>clear()\<close>
  empties the map. (The read accessors are functions of the state and change nothing.)
\<close>

theorem retention:
  assumes "s = run clk ops (new_tracker mode wt)" and "lookup s h = Some w"
  shows "(op \<noteq> Clear \<longrightarrow> h \<in> tracked (step clk op s))
     \<and> (\<forall>rep. polled s env = Some rep \<and> h \<notin> fst ` set rep
           \<longrightarrow> lookup (step clk (Poll env) s) h = Some (w\<lparr>is_visible := False\<rparr>))
     \<and> tracked (step clk Clear s) = {}"
proof -
  have inv: "invariant s" using assms(1) by (simp add: invariant_reachable)
  have t: "h \<in> tracked s" using assms(2) by (simp add: tracked_lookup)
  have a: "lookup (step clk (Poll env) s) h = Some (w\<lparr>is_visible := False\<rparr>)"
    if p: "polled s env = Some rep" and n: "h \<notin> fst ` set rep" for rep
  proof -
    from poll_lookup [OF inv p, of clk] obtain k prev where
      "\<And>h. lookup (step clk (Poll env) s) h
          = (if h \<in> fst ` set rep
             then lookup (fold (reconcile_entry clk (clk (ticks s) - prev)) rep
                    (s\<lparr>last_update_time := Some (clk (ticks s)), ticks := k\<rparr>)) h
             else map_option (\<lambda>w. w\<lparr>is_visible := False\<rparr>) (lookup s h))"
      by blast
    from this [of h] n have "lookup (step clk (Poll env) s) h
        = map_option (\<lambda>w. w\<lparr>is_visible := False\<rparr>) (lookup s h)"
      by (simp only: if_False)
    then show ?thesis using assms(2) by (simp only: option.map)
  qed
  have b: "op \<noteq> Clear \<longrightarrow> h \<in> tracked (step clk op s)"
    using tracked_step [OF inv t, of op clk] by blast
  have c: "tracked (step clk Clear s) = {}"
    by (simp add: clear_def tracked_def)
  show ?thesis using a b c by blast
qed

theorem retention_witness:
  "lookup (run demo_clock [Start, Poll editor_only] (new_tracker True None)) 1
     = Some \<lparr>hwnd = 1, title = ''Editor'', process_name = ''editor'', first_seen = 1000000,
         last_seen = 1000000, total_open_time = 0, active_time = 0, is_active = True,
         is_visible = True\<rparr>
   \<and> Stop \<noteq> Clear
   \<and> 1 \<in> tracked (step demo_clock Stop
         (run demo_clock [Start, Poll editor_only] (new_tracker True None)))
   \<and> polled (run demo_clock [Start, Poll editor_only] (new_tracker True None)) browser_only
     = Some [(2, ''Browser'', ''browser'', True)]
   \<and> 1 \<notin> fst ` set [(2 :: int, ''Browser'', ''browser'', True)]
   \<and> lookup (step demo_clock (Poll browser_only)
        (run demo_clock [Start, Poll editor_only] (new_tracker True None))) 1
     = Some \<lparr>hwnd = 1, title = ''Editor'', process_name = ''editor'', first_seen = 1000000,
         last_seen = 1000000, total_open_time = 0, active_time = 0, is_active = True,
         is_visible = False\<rparr>
   \<and> tracked (step demo_clock Clear
         (run demo_clock [Start, Poll editor_only] (new_tracker True None))) = {}"
proof -
  have a: "lookup (run demo_clock [Start, Poll editor_only] (new_tracker True None)) 1
     = Some \<lparr>hwnd = 1, title = ''Editor'', process_name = ''editor'', first_seen = 1000000,
         last_seen = 1000000, total_open_time = 0, active_time = 0, is_active = True,
         is_visible = True\<rparr>"
    by (simp add: eval_defs)
  have b: "polled (run demo_clock [Start, Poll editor_only] (new_tracker True None)) browser_only
     = Some [(2, ''Browser'', ''browser'', True)]"
    by (simp add: eval_defs)
  from retention [OF refl a, where op = Stop and env = browser_only] show ?thesis
    using a b by simp
qed

text \<open>
  C7. After a reconciliation cycle that obtained a snapshot, every identifier of that
  snapshot is tracked by a record that is visible, and a tracked record is visible exactly
  when its identifier is in that snapshot. (In simulation mode the engine sets the flag; for
  a native tracker it copies the flag of the entry, which both trackers construct with
  \<open>is_visible=True\<close>.)
\<close>

theorem visibility_correct:
  assumes "s = run clk ops (new_tracker mode wt)"
    and "polled s env = Some rep"
  shows "(\<forall>h \<in> fst ` set rep. \<exists>w. lookup (step clk (Poll env) s) h = Some w \<and> is_visible w)
     \<and> (\<forall>h w. lookup (step clk (Poll env) s) h = Some w
           \<longrightarrow> (is_visible w \<longleftrightarrow> h \<in> fst ` set rep))"
proof -
  have inv: "invariant s" using assms(1) by (simp add: invariant_reachable)
  from poll_lookup [OF inv assms(2), of clk] obtain k prev where
    w2: "well_formed (s\<lparr>last_update_time := Some (clk (ticks s)), ticks := k\<rparr>)" and
    lk: "\<And>h. lookup (step clk (Poll env) s) h
          = (if h \<in> fst ` set rep
             then lookup (fold (reconcile_entry clk (clk (ticks s) - prev)) rep
                    (s\<lparr>last_update_time := Some (clk (ticks s)), ticks := k\<rparr>)) h
             else map_option (\<lambda>w. w\<lparr>is_visible := False\<rparr>) (lookup s h))"
    by blast
  have present: "\<exists>w. lookup (step clk (Poll env) s) h = Some w \<and> is_visible w"
    if m: "h \<in> fst ` set rep" for h
  proof -
    obtain e where e: "find (\<lambda>e. fst e = h) (rev rep) = Some e"
      using find_rev_Some [OF m] by blast
    obtain h0 ti p a where "e = (h0, ti, p, a)"
      using prod_cases4 by blast
    with e have "find (\<lambda>e. fst e = h) (rev rep) = Some (h0, ti, p, a)" by (simp only:)
    from fold_last_entry [OF w2 this, of clk "clk (ticks s) - prev"]
    obtain w' where w': "lookup (fold (reconcile_entry clk (clk (ticks s) - prev)) rep
        (s\<lparr>last_update_time := Some (clk (ticks s)), ticks := k\<rparr>)) h = Some w'" "is_visible w'"
      by blast
    have "lookup (step clk (Poll env) s) h = Some w'"
      using lk [of h] m w'(1) by (simp only: if_True)
    then show ?thesis using w'(2) by blast
  qed
  have absent: "\<not> is_visible w"
    if m: "h \<notin> fst ` set rep" and l: "lookup (step clk (Poll env) s) h = Some w" for h w
  proof -
    have "lookup (step clk (Poll env) s) h
        = map_option (\<lambda>w. w\<lparr>is_visible := False\<rparr>) (lookup s h)"
      using lk [of h] m by (simp only: if_False)
    with l have "map_option (\<lambda>w. w\<lparr>is_visible := False\<rparr>) (lookup s h) = Some w"
      by (simp only:)
    then obtain w0 where "w = w0\<lparr>is_visible := False\<rparr>" by (cases "lookup s h") auto
    then show ?thesis by simp
  qed
  show ?thesis
  proof (intro conjI ballI allI impI)
    fix h assume "h \<in> fst ` set rep"
    then show "\<exists>w. lookup (step clk (Poll env) s) h = Some w \<and> is_visible w" by (rule present)
  next
    fix h w assume l: "lookup (step clk (Poll env) s) h = Some w"
    show "is_visible w \<longleftrightarrow> h \<in> fst ` set rep"
    proof (cases "h \<in> fst ` set rep")
      case True
      from present [OF True] obtain w' where "lookup (step clk (Poll env) s) h = Some w'"
        "is_visible w'" by blast
      with l have "is_visible w" by (simp only: option.inject)
      then show ?thesis using True by (simp only: simp_thms)
    next
      case False
      from absent [OF False l] show ?thesis using False by (simp only: simp_thms)
    qed
  qed
qed

theorem visibility_correct_witness:
  "polled (run demo_clock [Start, Poll editor_only] (new_tracker True None)) browser_only
     = Some [(2, ''Browser'', ''browser'', True)]
   \<and> lookup (step demo_clock (Poll browser_only)
        (run demo_clock [Start, Poll editor_only] (new_tracker True None))) 1
     = Some \<lparr>hwnd = 1, title = ''Editor'', process_name = ''editor'', first_seen = 1000000,
         last_seen = 1000000, total_open_time = 0, active_time = 0, is_active = True,
         is_visible = False\<rparr>
   \<and> lookup (step demo_clock (Poll browser_only)
        (run demo_clock [Start, Poll editor_only] (new_tracker True None))) 2
     = Some \<lparr>hwnd = 2, title = ''Browser'', process_name = ''browser'', first_seen = 3000000,
         last_seen = 3000000, total_open_time = 0, active_time = 0, is_active = True,
         is_visible = True\<rparr>
   \<and> polled (run native_clock [Start, Poll native_editor_and_browser, Poll native_browser_only]
        (new_tracker False (Some WindowsWindowTracker))) native_editor_only
     = Some [(1, ''Editor'', ''editor'', True)]
   \<and> lookup (run native_clock [Start, Poll native_editor_and_browser, Poll native_browser_only]
        (new_tracker False (Some WindowsWindowTracker))) 1
     = Some \<lparr>hwnd = 1, title = ''Editor'', process_name = ''editor'', first_seen = 1000000,
         last_seen = 1000000, total_open_time = 0, active_time = 0, is_active = False,
         is_visible = False\<rparr>
   \<and> lookup (step native_clock (Poll native_editor_only)
        (run native_clock [Start, Poll native_editor_and_browser, Poll native_browser_only]
          (new_tracker False (Some WindowsWindowTracker)))) 1
     = Some \<lparr>hwnd = 1, title = ''Editor'', process_name = ''editor'', first_seen = 1000000,
         last_seen = 3000000, total_open_time = 2000000, active_time = 1000000,
         is_active = True, is_visible = True\<rparr>
   \<and> lookup (step native_clock (Poll native_editor_only)
        (run native_clock [Start, Poll native_editor_and_browser, Poll native_browser_only]
          (new_tracker False (Some WindowsWindowTracker)))) 2
     = Some \<lparr>hwnd = 2, title = ''Browser'', process_name = ''browser'', first_seen = 1000000,
         last_seen = 2000000, total_open_time = 1000000, active_time = 1000000,
         is_active = True, is_visible = False\<rparr>"
proof -
  note native_defs = native_entry_def native_window_info_def native_reports_def
    native_clock_def native_editor_and_browser_def native_browser_only_def
    native_editor_only_def
  have a: "polled (run demo_clock [Start, Poll editor_only] (new_tracker True None)) browser_only
     = Some [(2, ''Browser'', ''browser'', True)]"
    by (simp add: eval_defs)
  have b: "lookup (step demo_clock (Poll browser_only)
        (run demo_clock [Start, Poll editor_only] (new_tracker True None))) 1
     = Some \<lparr>hwnd = 1, title = ''Editor'', process_name = ''editor'', first_seen = 1000000,
         last_seen = 1000000, total_open_time = 0, active_time = 0, is_active = True,
         is_visible = False\<rparr>"
    by (simp add: eval_defs)
  have c: "lookup (step demo_clock (Poll browser_only)
        (run demo_clock [Start, Poll editor_only] (new_tracker True None))) 2
     = Some \<lparr>hwnd = 2, title = ''Browser'', process_name = ''browser'', first_seen = 3000000,
         last_seen = 3000000, total_open_time = 0, active_time = 0, is_active = True,
         is_visible = True\<rparr>"
    by (simp add: eval_defs)
  have d: "polled (run native_clock [Start, Poll native_editor_and_browser, Poll native_browser_only]
        (new_tracker False (Some WindowsWindowTracker))) native_editor_only
     = Some [(1, ''Editor'', ''editor'', True)]"
    by (simp add: eval_defs native_defs)
  have e: "lookup (run native_clock [Start, Poll native_editor_and_browser, Poll native_browser_only]
        (new_tracker False (Some WindowsWindowTracker))) 1
     = Some \<lparr>hwnd = 1, title = ''Editor'', process_name = ''editor'', first_seen = 1000000,
         last_seen = 1000000, total_open_time = 0, active_time = 0, is_active = False,
         is_visible = False\<rparr>"
    by (simp add: eval_defs native_defs)
  have f: "lookup (step native_clock (Poll native_editor_only)
        (run native_clock [Start, Poll native_editor_and_browser, Poll native_browser_only]
          (new_tracker False (Some WindowsWindowTracker)))) 1
     = Some \<lparr>hwnd = 1, title = ''Editor'', process_name = ''editor'', first_seen = 1000000,
         last_seen = 3000000, total_open_time = 2000000, active_time = 1000000,
         is_active = True, is_visible = True\<rparr>"
    by (simp add: eval_defs native_defs)
  have g: "lookup (step native_clock (Poll native_editor_only)
        (run native_clock [Start, Poll native_editor_and_browser, Poll native_browser_only]
          (new_tracker False (Some WindowsWindowTracker)))) 2
     = Some \<lparr>hwnd = 2, title = ''Browser'', process_name = ''browser'', first_seen = 1000000,
         last_seen = 2000000, total_open_time = 1000000, active_time = 1000000,
         is_active = True, is_visible = False\<rparr>"
    by (simp add: eval_defs native_defs)
  from visibility_correct [OF refl a] visibility_correct [OF refl d] show ?thesis
    using a b c d e f g by (simp del: step.simps)
qed

section \<open>A failed poll\<close>

text \<open>
  C8. In a running tracker, when the source raises during a cycle, the exception is caught
  and logged, the loop sleeps the polling interval and goes on with the next cycle, still
  running, and the map and every tracked record are what they were before the cycle.
\<close>

theorem failed_cycle:
  assumes "s = run clk ops (new_tracker mode wt)" and "running s"
    and "source_error (simulation_mode s) env = Some e"
  shows "tracking_loop clk (env # envs) s = tracking_loop clk envs (tracking_cycle clk env s)
     \<and> running (tracking_cycle clk env s)
     \<and> windows (tracking_cycle clk env s) = windows s
     \<and> store (tracking_cycle clk env s) = store s
     \<and> effects (tracking_cycle clk env s)
         = effects s @ [LogError (''Error in tracking loop: '' @ e),
                        Sleep WINDOW_ENUMERATION_INTERVAL]"
proof -
  have "invariant s" using assms(1) by (simp add: invariant_reachable)
  then obtain prev where "last_update_time s = Some prev"
    using assms(2) by (auto simp: invariant_def)
  from poll_raised [OF assms(2) this assms(3), of clk] obtain k where
    "tracking_cycle clk env s
     = s\<lparr>last_update_time := Some (clk (ticks s)), ticks := k,
          effects := effects s @ [LogError (''Error in tracking loop: '' @ e),
                                  Sleep WINDOW_ENUMERATION_INTERVAL]\<rparr>"
    by blast
  then show ?thesis using assms(2) by simp
qed

theorem failed_cycle_witness:
  "running (run demo_clock [Start, Poll editor_only] (new_tracker True None))
   \<and> source_error (simulation_mode (run demo_clock [Start, Poll editor_only] (new_tracker True None)))
        failing_source = Some ''list index out of range''
   \<and> lookup (tracking_loop demo_clock [failing_source, browser_only]
        (run demo_clock [Start, Poll editor_only] (new_tracker True None))) 1
     = Some \<lparr>hwnd = 1, title = ''Editor'', process_name = ''editor'', first_seen = 1000000,
         last_seen = 1000000, total_open_time = 0, active_time = 0, is_active = True,
         is_visible = False\<rparr>
   \<and> effects (tracking_cycle demo_clock failing_source
        (run demo_clock [Start, Poll editor_only] (new_tracker True None)))
     = [Sleep 1000000, LogError ''Error in tracking loop: list index out of range'',
        Sleep 1000000]"
proof -
  have a: "running (run demo_clock [Start, Poll editor_only] (new_tracker True None))"
    by (simp add: eval_defs failing_source_def source_error_def)
  have b: "source_error (simulation_mode (run demo_clock [Start, Poll editor_only] (new_tracker True None)))
        failing_source = Some ''list index out of range''"
    by (simp add: eval_defs failing_source_def source_error_def)
  have c: "lookup (tracking_loop demo_clock [browser_only]
        (tracking_cycle demo_clock failing_source
          (run demo_clock [Start, Poll editor_only] (new_tracker True None)))) 1
     = Some \<lparr>hwnd = 1, title = ''Editor'', process_name = ''editor'', first_seen = 1000000,
         last_seen = 1000000, total_open_time = 0, active_time = 0, is_active = True,
         is_visible = False\<rparr>"
    by (simp add: eval_defs failing_source_def source_error_def)
  have d: "effects (run demo_clock [Start, Poll editor_only] (new_tracker True None))
     = [Sleep 1000000]"
    by (simp add: eval_defs failing_source_def source_error_def WINDOW_ENUMERATION_INTERVAL_def)
  from failed_cycle [OF refl a b, where envs = "[browser_only]"] show ?thesis
    using a b c d by (simp add: WINDOW_ENUMERATION_INTERVAL_def)
qed

section \<open>Statistics\<close>

text \<open>
  C10. \<open>get_stats\<close> reports the title of the first record, in the order of the map, whose
  \<open>is_active\<close> is true, whatever its \<open>is_visible\<close>. After the editor was focused and
  then left the snapshot while the browser is focused, it reports the editor, a record that
  is no longer visible, rather than the visible focused browser.
\<close>

theorem get_stats_names_ghost:
  "active_window (get_stats s)
     = map_option title (find is_active (map (deref s) (get_all_windows s)))
   \<and> active_window (get_stats
        (run demo_clock [Start, Poll editor_only, Poll browser_only] (new_tracker True None)))
     = Some ''Editor''
   \<and> map_option is_visible (lookup
        (run demo_clock [Start, Poll editor_only, Poll browser_only] (new_tracker True None)) 1)
     = Some False
   \<and> map_option title (lookup
        (run demo_clock [Start, Poll editor_only, Poll browser_only] (new_tracker True None)) 1)
     = Some ''Editor''
   \<and> lookup
        (run demo_clock [Start, Poll editor_only, Poll browser_only] (new_tracker True None)) 2
     = Some \<lparr>hwnd = 2, title = ''Browser'', process_name = ''browser'', first_seen = 3000000,
         last_seen = 3000000, total_open_time = 0, active_time = 0, is_active = True,
         is_visible = True\<rparr>"
proof -
  have "active_window (get_stats s)
     = map_option title (find is_active (map (deref s) (get_all_windows s)))"
    by (cases "find is_active (map (store s) (map snd (windows s)))")
       (simp_all add: get_stats_def get_all_windows_def deref_def Let_def comp_def)
  moreover have "active_window (get_stats
        (run demo_clock [Start, Poll editor_only, Poll browser_only] (new_tracker True None)))
     = Some ''Editor''"
    by (simp add: eval_defs get_stats_def)
  moreover have "lookup
        (run demo_clock [Start, Poll editor_only, Poll browser_only] (new_tracker True None)) 1
     = Some \<lparr>hwnd = 1, title = ''Editor'', process_name = ''editor'', first_seen = 1000000,
         last_seen = 1000000, total_open_time = 0, active_time = 0, is_active = True,
         is_visible = False\<rparr>"
    by (simp add: eval_defs get_stats_def)
  moreover have "lookup
        (run demo_clock [Start, Poll editor_only, Poll browser_only] (new_tracker True None)) 2
     = Some \<lparr>hwnd = 2, title = ''Browser'', process_name = ''browser'', first_seen = 3000000,
         last_seen = 3000000, total_open_time = 0, active_time = 0, is_active = True,
         is_visible = True\<rparr>"
    by (simp add: eval_defs get_stats_def)
  ultimately show ?thesis by simp
qed

section \<open>New and known windows in a cycle\<close>

text \<open>
  C1, as stated, fails: the tracker is started at clock reading 0, the first cycle begins
  one second later (interval 1.0 s) and sees the editor for the first time, focused. The new
  record has \<open>is_active\<close> and \<open>is_visible\<close> true, but its \<open>active_time\<close> is 0, not
  the interval: \<open>update_times\<close> is not called for a record that is being created.
\<close>

theorem new_record_active_time_counterexample:
  "polled (run demo_clock [Start] (new_tracker True None)) editor_only
     = Some [(1, ''Editor'', ''editor'', True)]
   \<and> last_update_time (run demo_clock [Start] (new_tracker True None)) = Some 0
   \<and> demo_clock (ticks (run demo_clock [Start] (new_tracker True None))) = 1000000
   \<and> lookup (step demo_clock (Poll editor_only) (run demo_clock [Start] (new_tracker True None))) 1
     = Some \<lparr>hwnd = 1, title = ''Editor'', process_name = ''editor'', first_seen = 1000000,
         last_seen = 1000000, total_open_time = 0, active_time = 0, is_active = True,
         is_visible = True\<rparr>"
  by (simp add: eval_defs)

text \<open>
  C1, amended. An identifier that is not tracked and occurs once in the snapshot of a cycle
  is inserted as a new record with the title, process name and focus flag of its entry,
  \<open>is_visible\<close> true, \<open>first_seen\<close> and \<open>last_seen\<close> two successive readings of the
  clock taken in that cycle, and \<open>active_time\<close> and \<open>total_open_time\<close> zero, whatever
  the interval.
\<close>

theorem new_record:
  assumes "s = run clk ops (new_tracker mode wt)" and "polled s env = Some rep"
    and "lookup s h = None" and "filter (\<lambda>e. fst e = h) rep = [(h, ti, p, a)]"
  shows "\<exists>n>ticks s. lookup (step clk (Poll env) s) h
     = Some \<lparr>hwnd = h, title = ti, process_name = p, first_seen = clk n, last_seen = clk (n + 1),
         total_open_time = 0, active_time = 0, is_active = a, is_visible = True\<rparr>"
proof -
  have inv: "invariant s" using assms(1) by (simp add: invariant_reachable)
  from poll_lookup [OF inv assms(2), of clk] obtain k prev where k: "ticks s < k"
    and w2: "well_formed (s\<lparr>last_update_time := Some (clk (ticks s)), ticks := k\<rparr>)" and
    lk: "\<And>h. lookup (step clk (Poll env) s) h
          = (if h \<in> fst ` set rep
             then lookup (fold (reconcile_entry clk (clk (ticks s) - prev)) rep
                    (s\<lparr>last_update_time := Some (clk (ticks s)), ticks := k\<rparr>)) h
             else map_option (\<lambda>w. w\<lparr>is_visible := False\<rparr>) (lookup s h))"
    by blast
  let ?s2 = "s\<lparr>last_update_time := Some (clk (ticks s)), ticks := k\<rparr>"
  have "(h, ti, p, a) \<in> set (filter (\<lambda>e. fst e = h) rep)" using assms(4) by simp
  then have "(h, ti, p, a) \<in> set rep" by simp
  then have m: "h \<in> fst ` set rep" by force
  from fold_single [OF w2 assms(4), of clk "clk (ticks s) - prev"] obtain n where
    n: "ticks ?s2 \<le> n" and
    f: "lookup (fold (reconcile_entry clk (clk (ticks s) - prev)) rep ?s2) h
        = Some (entry_value clk (clk (ticks s) - prev) n (h, ti, p, a) (lookup ?s2 h))"
    by blast
  have "lookup ?s2 h = None" using assms(3) by simp
  with f have "lookup (fold (reconcile_entry clk (clk (ticks s) - prev)) rep ?s2) h
        = Some \<lparr>hwnd = h, title = ti, process_name = p, first_seen = clk n, last_seen = clk (n + 1),
         total_open_time = 0, active_time = 0, is_active = a, is_visible = True\<rparr>"
    by (simp only: entry_value_None)
  moreover have "lookup (step clk (Poll env) s) h
      = lookup (fold (reconcile_entry clk (clk (ticks s) - prev)) rep ?s2) h"
    using lk [of h] m by (simp only: if_True)
  moreover have "ticks s < n" using n k by simp
  ultimately show ?thesis by metis
qed

theorem new_record_witness:
  "polled (run demo_clock [Start] (new_tracker True None)) editor_only
     = Some [(1, ''Editor'', ''editor'', True)]
   \<and> lookup (run demo_clock [Start] (new_tracker True None)) 1 = None
   \<and> filter (\<lambda>e. fst e = 1) [(1 :: int, ''Editor'', ''editor'', True)]
     = [(1, ''Editor'', ''editor'', True)]
   \<and> (\<exists>n>ticks (run demo_clock [Start] (new_tracker True None)).
        lookup (step demo_clock (Poll editor_only)
          (run demo_clock [Start] (new_tracker True None))) 1
        = Some \<lparr>hwnd = 1, title = ''Editor'', process_name = ''editor'',
            first_seen = demo_clock n, last_seen = demo_clock (n + 1),
            total_open_time = 0, active_time = 0, is_active = True, is_visible = True\<rparr>)"
proof -
  have a: "polled (run demo_clock [Start] (new_tracker True None)) editor_only
     = Some [(1, ''Editor'', ''editor'', True)]"
    by (simp add: eval_defs)
  have b: "lookup (run demo_clock [Start] (new_tracker True None)) 1 = None"
    by (simp add: eval_defs)
  have c: "filter (\<lambda>e. fst e = 1) [(1 :: int, ''Editor'', ''editor'', True)]
     = [(1, ''Editor'', ''editor'', True)]"
    by simp
  from new_record [OF refl a b c] show ?thesis using a b c by blast
qed

text \<open>
  C6, as stated, fails: the editor is tracked with process name \<open>editor\<close>; the next cycle
  reports it with a new title and the process name \<open>renamed\<close>. The title is refreshed, the
  process name is not.
\<close>

theorem process_name_refresh_counterexample:
  "polled (run demo_clock [Start, Poll editor_only] (new_tracker True None)) renamed_editor
     = Some [(1, ''Editor v2'', ''renamed'', True)]
   \<and> lookup (run demo_clock [Start, Poll editor_only] (new_tracker True None)) 1
     = Some \<lparr>hwnd = 1, title = ''Editor'', process_name = ''editor'', first_seen = 1000000,
         last_seen = 1000000, total_open_time = 0, active_time = 0, is_active = True,
         is_visible = True\<rparr>
   \<and> lookup (step demo_clock (Poll renamed_editor)
        (run demo_clock [Start, Poll editor_only] (new_tracker True None))) 1
     = Some \<lparr>hwnd = 1, title = ''Editor v2'', process_name = ''editor'', first_seen = 1000000,
         last_seen = 3000000, total_open_time = 2000000, active_time = 2000000,
         is_active = True, is_visible = True\<rparr>"
  by (simp add: eval_defs renamed_editor_def)

text \<open>
  C6, amended. When a cycle observes a tracked identifier, its record afterwards has the
  title and the focus flag of the last entry of the snapshot for that identifier and
  \<open>is_visible\<close> true; its \<open>process_name\<close> is the one it had before the cycle.
\<close>

theorem display_refresh:
  assumes "s = run clk ops (new_tracker mode wt)" and "polled s env = Some rep"
    and "lookup s h = Some w" and "find (\<lambda>e. fst e = h) (rev rep) = Some (h', ti, p, a)"
  shows "\<exists>w'. lookup (step clk (Poll env) s) h = Some w'
     \<and> title w' = ti \<and> is_visible w' \<and> is_active w' = a
     \<and> process_name w' = process_name w"
proof -
  have inv: "invariant s" using assms(1) by (simp add: invariant_reachable)
  from poll_lookup [OF inv assms(2), of clk] obtain k prev where
    w2: "well_formed (s\<lparr>last_update_time := Some (clk (ticks s)), ticks := k\<rparr>)" and
    lk: "\<And>h. lookup (step clk (Poll env) s) h
          = (if h \<in> fst ` set rep
             then lookup (fold (reconcile_entry clk (clk (ticks s) - prev)) rep
                    (s\<lparr>last_update_time := Some (clk (ticks s)), ticks := k\<rparr>)) h
             else map_option (\<lambda>w. w\<lparr>is_visible := False\<rparr>) (lookup s h))"
    by blast
  let ?s2 = "s\<lparr>last_update_time := Some (clk (ticks s)), ticks := k\<rparr>"
  let ?f = "fold (reconcile_entry clk (clk (ticks s) - prev)) rep ?s2"
  have "(h', ti, p, a) \<in> set (rev rep) \<and> fst (h', ti, p, a) = h"
    using assms(4) unfolding find_Some_iff by (metis nth_mem)
  then have m: "h \<in> fst ` set rep" by force
  from fold_last_entry [OF w2 assms(4), of clk "clk (ticks s) - prev"] obtain w1 where
    1: "lookup ?f h = Some w1" "title w1 = ti" "is_active w1 = a" "is_visible w1" by blast
  have "lookup ?s2 h = Some w" using assms(3) by simp
  from fold_preserves [OF w2 this, of clk "clk (ticks s) - prev" rep] obtain w2' where
    2: "lookup ?f h = Some w2'" "process_name w2' = process_name w" by blast
  have "w2' = w1" using 1(1) 2(1) by simp
  moreover have "lookup (step clk (Poll env) s) h = lookup ?f h"
    using lk [of h] m by (simp only: if_True)
  ultimately show ?thesis using 1 2 by metis
qed

theorem display_refresh_witness:
  "polled (run demo_clock [Start, Poll editor_only] (new_tracker True None)) renamed_editor
     = Some [(1, ''Editor v2'', ''renamed'', True)]
   \<and> lookup (run demo_clock [Start, Poll editor_only] (new_tracker True None)) 1
     = Some \<lparr>hwnd = 1, title = ''Editor'', process_name = ''editor'', first_seen = 1000000,
         last_seen = 1000000, total_open_time = 0, active_time = 0, is_active = True,
         is_visible = True\<rparr>
   \<and> find (\<lambda>e. fst e = 1) (rev [(1 :: int, ''Editor v2'', ''renamed'', True)])
     = Some (1, ''Editor v2'', ''renamed'', True)
   \<and> (\<exists>w'. lookup (step demo_clock (Poll renamed_editor)
          (run demo_clock [Start, Poll editor_only] (new_tracker True None))) 1 = Some w'
        \<and> title w' = ''Editor v2'' \<and> is_visible w' \<and> is_active w' = True
        \<and> process_name w' = ''editor'')"
proof -
  have a: "polled (run demo_clock [Start, Poll editor_only] (new_tracker True None)) renamed_editor
     = Some [(1, ''Editor v2'', ''renamed'', True)]"
    by (simp add: eval_defs renamed_editor_def)
  have b: "lookup (run demo_clock [Start, Poll editor_only] (new_tracker True None)) 1
     = Some \<lparr>hwnd = 1, title = ''Editor'', process_name = ''editor'', first_seen = 1000000,
         last_seen = 1000000, total_open_time = 0, active_time = 0, is_active = True,
         is_visible = True\<rparr>"
    by (simp add: eval_defs renamed_editor_def)
  have c: "find (\<lambda>e. fst e = 1) (rev [(1 :: int, ''Editor v2'', ''renamed'', True)])
     = Some (1, ''Editor v2'', ''renamed'', True)"
    by simp
  from display_refresh [OF refl a b c] show ?thesis using a b c by simp
qed

section \<open>What the read accessors return\<close>

lemma windows_step:
  assumes "op \<noteq> Clear"
  shows "\<exists>ys. windows (step clk op s) = windows s @ ys"
proof (cases op)
  case Start
  then show ?thesis by (simp add: start_def)
next
  case Stop
  then show ?thesis by (simp add: stop_def)
next
  case Clear
  then show ?thesis using assms by simp
next
  case (Poll env)
  show ?thesis
  proof (cases "polled s env")
    case None
    from poll_failure [OF this, of clk] obtain k l es where
      s': "step clk (Poll env) s = s\<lparr>last_update_time := l, ticks := k, effects := effects s @ es\<rparr>"
      by blast
    show ?thesis unfolding Poll s' by simp
  next
    case (Some rep)
    from poll_success [OF this, of clk] obtain k prev where
      s': "step clk (Poll env) s
       = (reconcile clk (clk (ticks s) - prev) rep
            (s\<lparr>last_update_time := Some (clk (ticks s)), ticks := k\<rparr>))
         \<lparr>effects := effects s @ [Sleep WINDOW_ENUMERATION_INTERVAL]\<rparr>" by blast
    show ?thesis
      unfolding Poll s'
      using windows_reconcile [of clk "clk (ticks s) - prev" rep
          "s\<lparr>last_update_time := Some (clk (ticks s)), ticks := k\<rparr>"]
      by simp
  qed
qed

text \<open>
  C3, as stated, fails: after the first cycle a reader obtains the editor's record from
  \<open>get_window\<close> (and the same reference in the list of \<open>get_all_windows\<close>). The next
  cycle, in which the editor is no longer focused, changes \<open>last_seen\<close>,
  \<open>total_open_time\<close> and \<open>is_active\<close> of the very record the reader holds.
\<close>

theorem returned_record_counterexample:
  "get_window (run demo_clock [Start, Poll editor_only] (new_tracker True None)) 1 = Some 0
   \<and> get_all_windows (run demo_clock [Start, Poll editor_only] (new_tracker True None)) = [0]
   \<and> deref (run demo_clock [Start, Poll editor_only] (new_tracker True None)) 0
     = \<lparr>hwnd = 1, title = ''Editor'', process_name = ''editor'', first_seen = 1000000,
        last_seen = 1000000, total_open_time = 0, active_time = 0, is_active = True,
        is_visible = True\<rparr>
   \<and> deref (step demo_clock (Poll editor_and_browser)
        (run demo_clock [Start, Poll editor_only] (new_tracker True None))) 0
     = \<lparr>hwnd = 1, title = ''Editor'', process_name = ''editor'', first_seen = 1000000,
        last_seen = 3000000, total_open_time = 2000000, active_time = 0, is_active = False,
        is_visible = True\<rparr>"
  by (simp add: eval_defs editor_and_browser_def)

text \<open>
  C3, amended. \<open>get_window\<close> returns the tracker's own record, and \<open>get_all_windows\<close>
  a new list of the tracker's own records: under every operation other than \<open>clear()\<close>
  the identifier stays bound to the same object, so what a reader sees through a returned
  record is at any time the tracker's current record for that identifier, and the list
  obtained earlier is an initial part of the list obtained later.
\<close>

theorem accessors_return_live_records:
  assumes "get_window s h = Some r" and "op \<noteq> Clear"
  shows "get_window (step clk op s) h = Some r
     \<and> lookup (step clk op s) h = Some (deref (step clk op s) r)
     \<and> prefix (get_all_windows s) (get_all_windows (step clk op s))"
proof -
  from windows_step [OF assms(2), of clk s] obtain ys where
    ys: "windows (step clk op s) = windows s @ ys" by blast
  have a: "get_window (step clk op s) h = Some r"
    using assms(1) by (simp add: get_window_def ys map_add_def)
  have b: "lookup (step clk op s) h = Some (deref (step clk op s) r)"
    using a by (simp add: lookup_def deref_def)
  have c: "prefix (get_all_windows s) (get_all_windows (step clk op s))"
    by (simp add: get_all_windows_def ys)
  show ?thesis using a b c by blast
qed

theorem accessors_return_live_records_witness:
  "get_window (run demo_clock [Start, Poll editor_only] (new_tracker True None)) 1 = Some 0
   \<and> Poll editor_and_browser \<noteq> Clear
   \<and> get_window (step demo_clock (Poll editor_and_browser)
        (run demo_clock [Start, Poll editor_only] (new_tracker True None))) 1 = Some 0
   \<and> lookup (step demo_clock (Poll editor_and_browser)
        (run demo_clock [Start, Poll editor_only] (new_tracker True None))) 1
     = Some (deref (step demo_clock (Poll editor_and_browser)
        (run demo_clock [Start, Poll editor_only] (new_tracker True None))) 0)
   \<and> get_all_windows (step demo_clock (Poll editor_and_browser)
        (run demo_clock [Start, Poll editor_only] (new_tracker True None))) = [0, 1]"
proof -
  have a: "get_window (run demo_clock [Start, Poll editor_only] (new_tracker True None)) 1 = Some 0"
    by (simp add: eval_defs editor_and_browser_def)
  have b: "Poll editor_and_browser \<noteq> Clear" by simp
  have c: "get_all_windows (step demo_clock (Poll editor_and_browser)
        (run demo_clock [Start, Poll editor_only] (new_tracker True None))) = [0, 1]"
    by (simp add: eval_defs editor_and_browser_def)
  from accessors_return_live_records [OF a b, of demo_clock] show ?thesis
    using a c by (simp del: step.simps)
qed

section \<open>Focus\<close>

lemma source_contract_simulation: "source_contract True op"
  by (cases op) (auto simp: report_def single_focus_def split: sum.splits option.splits)

lemma simulation_mode_step [simp]: "simulation_mode (step clk op s) = simulation_mode s"
proof (cases op)
  case (Poll env)
  show ?thesis
  proof (cases "polled s env")
    case None
    from poll_failure [OF this, of clk] obtain k l es where
      s': "step clk (Poll env) s = s\<lparr>last_update_time := l, ticks := k, effects := effects s @ es\<rparr>"
      by blast
    show ?thesis unfolding Poll s' by simp
  next
    case (Some rep)
    from poll_success [OF this, of clk] obtain k prev where
      s': "step clk (Poll env) s
       = (reconcile clk (clk (ticks s) - prev) rep
            (s\<lparr>last_update_time := Some (clk (ticks s)), ticks := k\<rparr>))
         \<lparr>effects := effects s @ [Sleep WINDOW_ENUMERATION_INTERVAL]\<rparr>" by blast
    show ?thesis unfolding Poll s' by (simp add: reconcile_def)
  qed
qed (simp_all add: start_def stop_def clear_def)

lemma visible_focus_in_snapshot:
  assumes "invariant s" and "polled s env = Some rep"
    and "lookup (step clk (Poll env) s) h = Some w" and "is_active w" and "is_visible w"
  shows "\<exists>ti p. (h, ti, p, True) \<in> set rep"
proof -
  from poll_lookup [OF assms(1,2), of clk] obtain k prev where
    w2: "well_formed (s\<lparr>last_update_time := Some (clk (ticks s)), ticks := k\<rparr>)" and
    lk: "\<And>h. lookup (step clk (Poll env) s) h
          = (if h \<in> fst ` set rep
             then lookup (fold (reconcile_entry clk (clk (ticks s) - prev)) rep
                    (s\<lparr>last_update_time := Some (clk (ticks s)), ticks := k\<rparr>)) h
             else map_option (\<lambda>w. w\<lparr>is_visible := False\<rparr>) (lookup s h))"
    by blast
  have m: "h \<in> fst ` set rep"
  proof (rule ccontr)
    assume n: "h \<notin> fst ` set rep"
    have "lookup (step clk (Poll env) s) h
        = map_option (\<lambda>w. w\<lparr>is_visible := False\<rparr>) (lookup s h)"
      using lk [of h] n by (simp only: if_False)
    with assms(3) have "map_option (\<lambda>w. w\<lparr>is_visible := False\<rparr>) (lookup s h) = Some w"
      by (simp only:)
    then obtain w0 where "w = w0\<lparr>is_visible := False\<rparr>" by (cases "lookup s h") auto
    then show False using assms(5) by simp
  qed
  obtain e where e: "find (\<lambda>e. fst e = h) (rev rep) = Some e"
    using find_rev_Some [OF m] by blast
  obtain h0 ti p a where t: "e = (h0, ti, p, a)"
    using prod_cases4 by blast
  have f: "find (\<lambda>e. fst e = h) (rev rep) = Some (h0, ti, p, a)"
    using e t by (simp only:)
  from fold_last_entry [OF w2 f, of clk "clk (ticks s) - prev"]
  obtain w' where w': "lookup (fold (reconcile_entry clk (clk (ticks s) - prev)) rep
      (s\<lparr>last_update_time := Some (clk (ticks s)), ticks := k\<rparr>)) h = Some w'" "is_active w' = a"
    by blast
  have "lookup (step clk (Poll env) s) h = Some w'"
    using lk [of h] m w'(1) by (simp only: if_True)
  with assms(3) have "w = w'" by (simp only: option.inject)
  with w'(2) assms(4) have a: "a" by simp
  have "(h0, ti, p, a) \<in> set (rev rep) \<and> fst (h0, ti, p, a) = h"
    using f unfolding find_Some_iff by (metis nth_mem)
  then have "(h, ti, p, True) \<in> set rep" using a by auto
  then show ?thesis by blast
qed

lemma one_visible_focus_step:
  assumes "invariant s" and "one_visible_focus s"
    and "source_contract (simulation_mode s) op"
  shows "one_visible_focus (step clk op s)"
proof (cases op)
  case Start
  then show ?thesis using assms(2) by (simp add: start_def one_visible_focus_def)
next
  case Stop
  then show ?thesis using assms(2) by (simp add: stop_def one_visible_focus_def)
next
  case Clear
  then show ?thesis by (simp add: clear_def one_visible_focus_def lookup_alt)
next
  case (Poll env)
  show ?thesis
  proof (cases "polled s env")
    case None
    from poll_failure [OF this, of clk] obtain k l es where
      s': "step clk (Poll env) s = s\<lparr>last_update_time := l, ticks := k, effects := effects s @ es\<rparr>"
      by blast
    show ?thesis using assms(2) unfolding Poll s' by (simp add: one_visible_focus_def)
  next
    case (Some rep)
    then have "report (simulation_mode s) env = Some rep"
      by (simp add: polled_def split: if_splits)
    then have sf: "single_focus rep" using assms(3) Poll by simp
    show ?thesis
      unfolding one_visible_focus_def Poll
    proof (intro allI impI, elim conjE)
      fix h1 h2 w1 w2
      assume 1: "lookup (step clk (Poll env) s) h1 = Some w1" "is_active w1" "is_visible w1"
        and 2: "lookup (step clk (Poll env) s) h2 = Some w2" "is_active w2" "is_visible w2"
      from visible_focus_in_snapshot [OF assms(1) Some 1] obtain t1 p1 where
        e1: "(h1, t1, p1, True) \<in> set rep" by blast
      from visible_focus_in_snapshot [OF assms(1) Some 2] obtain t2 p2 where
        e2: "(h2, t2, p2, True) \<in> set rep" by blast
      from sf e1 e2 show "h1 = h2" unfolding single_focus_def by fastforce
    qed
  qed
qed

lemma one_visible_focus_run:
  "invariant s \<Longrightarrow> one_visible_focus s \<Longrightarrow> \<forall>op\<in>set ops. source_contract (simulation_mode s) op
     \<Longrightarrow> invariant (run clk ops s) \<and> one_visible_focus (run clk ops s)"
  unfolding run_def
proof (induction ops arbitrary: s)
  case Nil
  then show ?case by simp
next
  case (Cons op ops)
  have "invariant (step clk op s)" using Cons.prems(1) by (rule invariant_step)
  moreover have "one_visible_focus (step clk op s)"
    using Cons.prems by (simp add: one_visible_focus_step)
  moreover have "\<forall>op'\<in>set ops. source_contract (simulation_mode (step clk op s)) op'"
    using Cons.prems(3) by simp
  ultimately show ?case using Cons.IH [of "step clk op s"] by simp
qed

lemma filter_le_one:
  "distinct (map fst xs) \<Longrightarrow>
   (\<forall>x\<in>set xs. \<forall>y\<in>set xs. P (snd x) \<and> P (snd y) \<longrightarrow> fst x = fst y) \<Longrightarrow>
   length (filter (\<lambda>x. P (snd x)) xs) \<le> 1"
proof (induction xs)
  case Nil
  then show ?case by simp
next
  case (Cons x xs)
  have d: "distinct (map fst xs)" and n: "fst x \<notin> fst ` set xs"
    using Cons.prems(1) by simp_all
  have s: "set xs \<subseteq> set (x # xs)" "x \<in> set (x # xs)" by auto
  have "\<forall>a\<in>set xs. \<forall>b\<in>set xs. P (snd a) \<and> P (snd b) \<longrightarrow> fst a = fst b"
    using Cons.prems(2) s(1) by blast
  then have ih: "length (filter (\<lambda>x. P (snd x)) xs) \<le> 1"
    by (rule Cons.IH [OF d])
  show ?case
  proof (cases "P (snd x)")
    case True
    have "\<not> P (snd y)" if "y \<in> set xs" for y
    proof
      assume "P (snd y)"
      with Cons.prems(2) True that s have "fst x = fst y" by blast
      with n that show False by blast
    qed
    then have "filter (\<lambda>x. P (snd x)) xs = []"
      unfolding filter_empty_conv by blast
    then show ?thesis using True by simp
  next
    case False
    then show ?thesis using ih by simp
  qed
qed

lemma visible_focus_le_one:
  assumes "well_formed s" and "one_visible_focus s"
  shows "length (visible_focus s) \<le> 1"
proof -
  let ?P = "\<lambda>r. is_active (store s r) \<and> is_visible (store s r)"
  have d: "distinct (map fst (windows s))" using assms(1) by (simp add: well_formed_def)
  have "fst x = fst y" if "x \<in> set (windows s)" "y \<in> set (windows s)"
    "?P (snd x)" "?P (snd y)" for x y
  proof -
    have "(fst x, snd x) \<in> set (windows s)" "(fst y, snd y) \<in> set (windows s)"
      using that(1,2) by simp_all
    then have "lookup s (fst x) = Some (store s (snd x))"
      "lookup s (fst y) = Some (store s (snd y))"
      using d by (simp_all add: lookup_alt del: prod.collapse)
    then show ?thesis using assms(2) that(3,4) unfolding one_visible_focus_def by blast
  qed
  then have "\<forall>x\<in>set (windows s). \<forall>y\<in>set (windows s).
      ?P (snd x) \<and> ?P (snd y) \<longrightarrow> fst x = fst y"
    by blast
  from filter_le_one [OF d, of ?P, OF this]
  have "length (filter (\<lambda>x. ?P (snd x)) (windows s)) \<le> 1" .
  moreover have "visible_focus s
      = map (\<lambda>x. store s (snd x)) (filter (\<lambda>x. ?P (snd x)) (windows s))"
    by (simp add: visible_focus_def get_all_windows_def deref_def filter_map comp_def)
  ultimately show ?thesis by simp
qed

text \<open>
  C2, as stated, fails: the simulation reports a single focused handle in every cycle. The
  editor is focused in the first cycle; in the second the editor is absent from the snapshot
  and the browser is focused. Afterwards both records have \<open>is_active\<close> true: a record
  that leaves the snapshot keeps its flag.
\<close>

theorem single_focus_counterexample:
  "source_contract True (Poll editor_only) \<and> source_contract True (Poll browser_only)
   \<and> map is_active (map (deref
        (run demo_clock [Start, Poll editor_only, Poll browser_only] (new_tracker True None)))
        (get_all_windows
          (run demo_clock [Start, Poll editor_only, Poll browser_only] (new_tracker True None))))
     = [True, True]"
  by (simp add: eval_defs single_focus_def)

text \<open>
  C2, amended. In every state reached from a new tracker by operations whose snapshots report
  at most one focused identifier, at most one record is both visible and active.
\<close>

theorem single_visible_focus:
  assumes "\<forall>op\<in>set ops. source_contract mode op"
  shows "length (visible_focus (run clk ops (new_tracker mode wt))) \<le> 1"
proof -
  have "one_visible_focus (new_tracker mode wt)"
    by (simp add: one_visible_focus_def lookup_alt new_tracker_def)
  moreover have "simulation_mode (new_tracker mode wt) = mode"
    by (simp add: new_tracker_def)
  ultimately have "invariant (run clk ops (new_tracker mode wt))
      \<and> one_visible_focus (run clk ops (new_tracker mode wt))"
    using one_visible_focus_run [of "new_tracker mode wt" ops clk] assms invariant_new
    by simp
  then show ?thesis using visible_focus_le_one by (auto simp: invariant_def)
qed

theorem single_visible_focus_witness:
  "source_contract True Start \<and> source_contract True (Poll editor_only)
   \<and> source_contract True (Poll browser_only)
   \<and> visible_focus
        (run demo_clock [Start, Poll editor_only, Poll browser_only] (new_tracker True None))
     = [\<lparr>hwnd = 2, title = ''Browser'', process_name = ''browser'', first_seen = 3000000,
         last_seen = 3000000, total_open_time = 0, active_time = 0, is_active = True,
         is_visible = True\<rparr>]"
proof -
  have a: "\<forall>op\<in>set [Start, Poll editor_only, Poll browser_only]. source_contract True op"
    by (simp add: source_contract_simulation)
  have b: "visible_focus
        (run demo_clock [Start, Poll editor_only, Poll browser_only] (new_tracker True None))
     = [\<lparr>hwnd = 2, title = ''Browser'', process_name = ''browser'', first_seen = 3000000,
         last_seen = 3000000, total_open_time = 0, active_time = 0, is_active = True,
         is_visible = True\<rparr>]"
    by (simp add: eval_defs visible_focus_def)
  have c: "source_contract True Start" "source_contract True (Poll editor_only)"
    "source_contract True (Poll browser_only)"
    by (rule source_contract_simulation)+
  from single_visible_focus [OF a, of demo_clock None] show ?thesis
    using b c by blast
qed

section \<open>Time accounting\<close>

lemma mono_clock_of:
  assumes "sorted xs"
  shows "mono (clock_of xs)"
proof (rule monoI)
  fix m n :: nat
  assume mn: "m \<le> n"
  show "clock_of xs m \<le> clock_of xs n"
  proof (cases "n < length xs")
    case True
    then show ?thesis using assms mn by (simp add: clock_of_def sorted_nth_mono)
  next
    case False
    show ?thesis
    proof (cases "m < length xs")
      case True
      then have "xs \<noteq> []" by auto
      then have "last (0 # xs) = xs ! (length xs - 1)" by (simp add: last_conv_nth)
      moreover have "xs ! m \<le> xs ! (length xs - 1)"
        using assms True by (intro sorted_nth_mono) auto
      ultimately show ?thesis using True False by (simp add: clock_of_def)
    next
      case m: False
      then show ?thesis using False by (simp add: clock_of_def)
    qed
  qed
qed

lemma time_inv_ticks:
  assumes "mono clk" and "time_inv clk s" and "ticks s \<le> k"
    and "\<And>h. lookup s' h = lookup s h" and "ticks s' = k"
  shows "time_inv clk s'"
proof -
  have "clk (ticks s) \<le> clk k" using assms(1,3) by (rule monoD)
  then show ?thesis
    using assms(2,4,5) unfolding time_inv_def by (metis order_trans)
qed

lemma focus_count_snoc: "focus_count (xs @ [x]) h = focus_count xs h + focus_count [x] h"
  by (simp add: focus_count_def)

lemma fold_accounting:
  assumes "well_formed s" and "lookup s h = Some w"
  shows "\<exists>w'. lookup (fold (reconcile_entry clk i) rep s) h = Some w'
     \<and> first_seen w' = first_seen w
     \<and> active_time w' = active_time w + i * int (focus_count rep h)
     \<and> (h \<in> fst ` set rep \<longrightarrow>
          (\<exists>n. ticks s \<le> n \<and> n + 2 \<le> ticks s + 2 * length rep
             \<and> last_seen w' = clk n \<and> total_open_time w' = clk (n + 1) - first_seen w))"
proof (induction rep rule: rev_induct)
  case Nil
  then show ?case using assms(2) by (simp add: focus_count_def)
next
  case (snoc x xs)
  let ?f = "fold (reconcile_entry clk i) xs s"
  have w: "well_formed ?f" using assms(1) by (rule wf_fold)
  from snoc.IH obtain w1 where w1: "lookup ?f h = Some w1" "first_seen w1 = first_seen w"
    "active_time w1 = active_time w + i * int (focus_count xs h)"
    "h \<in> fst ` set xs \<longrightarrow>
          (\<exists>n. ticks s \<le> n \<and> n + 2 \<le> ticks s + 2 * length xs
             \<and> last_seen w1 = clk n \<and> total_open_time w1 = clk (n + 1) - first_seen w)"
    by blast
  show ?case
  proof (cases "fst x = h")
    case True
    let ?v = "entry_value clk i (ticks ?f) x (Some w1)"
    have l: "lookup (fold (reconcile_entry clk i) (xs @ [x]) s) h = Some ?v"
      using True w1(1) by (simp add: lookup_reconcile_entry [OF w])
    have fc: "int (focus_count [x] h) = (if snd (snd (snd x)) then 1 else 0)"
      using True by (cases x) (simp add: focus_count_def)
    have a: "first_seen ?v = first_seen w" using w1(2) by (simp only: entry_value_Some)
    have b: "active_time ?v = active_time w + i * int (focus_count (xs @ [x]) h)"
      using w1(3) fc by (simp add: focus_count_snoc algebra_simps)
    have c: "last_seen ?v = clk (ticks s + 2 * length xs)"
      "total_open_time ?v = clk (ticks s + 2 * length xs + 1) - first_seen w"
      using w1(2) by simp_all
    have "ticks s \<le> ticks s + 2 * length xs
        \<and> ticks s + 2 * length xs + 2 \<le> ticks s + 2 * length (xs @ [x])
        \<and> last_seen ?v = clk (ticks s + 2 * length xs)
        \<and> total_open_time ?v = clk (ticks s + 2 * length xs + 1) - first_seen w"
      using c by simp
    then have "\<exists>n. ticks s \<le> n \<and> n + 2 \<le> ticks s + 2 * length (xs @ [x])
        \<and> last_seen ?v = clk n \<and> total_open_time ?v = clk (n + 1) - first_seen w"
      by blast
    with l a b show ?thesis by blast
  next
    case False
    have l: "lookup (fold (reconcile_entry clk i) (xs @ [x]) s) h = Some w1"
      using False w1(1) by (simp add: lookup_reconcile_entry [OF w])
    have "focus_count [x] h = 0" using False by (cases x) (auto simp: focus_count_def)
    then have b: "active_time w1 = active_time w + i * int (focus_count (xs @ [x]) h)"
      using w1(3) by (simp add: focus_count_snoc)
    have c: "\<exists>n. ticks s \<le> n \<and> n + 2 \<le> ticks s + 2 * length (xs @ [x])
        \<and> last_seen w1 = clk n \<and> total_open_time w1 = clk (n + 1) - first_seen w"
      if "h \<in> fst ` set (xs @ [x])"
    proof -
      from that False have "h \<in> fst ` set xs" by auto
      with w1(4) obtain n where "ticks s \<le> n" "n + 2 \<le> ticks s + 2 * length xs"
        "last_seen w1 = clk n" "total_open_time w1 = clk (n + 1) - first_seen w" by blast
      moreover from this(2) have "n + 2 \<le> ticks s + 2 * length (xs @ [x])" by simp
      ultimately show ?thesis by blast
    qed
    from l w1(2) b c show ?thesis by blast
  qed
qed

lemma ticks_poll:
  assumes "step clk (Poll env) s
       = (reconcile clk i rep (s\<lparr>last_update_time := l, ticks := k\<rparr>))\<lparr>effects := es\<rparr>"
  shows "ticks (step clk (Poll env) s) = k + 2 * length rep"
  unfolding assms by (simp add: reconcile_def)

lemma focus_count_other: "h \<notin> fst ` set rep \<Longrightarrow> focus_count rep h = 0"
  by (induction rep) (auto simp: focus_count_def)

lemma time_reconcile:
  assumes "mono clk" and "well_formed s" and "time_inv clk s"
  shows "time_inv clk (reconcile clk i rep s)"
proof -
  let ?f = "fold (reconcile_entry clk i) rep s"
  have wf: "well_formed ?f" using assms(2) by (rule wf_fold)
  from time_fold [OF assms, of i rep] have tf: "time_inv clk ?f" by blast
  have lm: "lookup (reconcile clk i rep s) h
      = (if h \<in> fst ` set rep then lookup ?f h
         else map_option (\<lambda>w. w\<lparr>is_visible := False\<rparr>) (lookup ?f h))" for h
    unfolding reconcile_def by (rule lookup_mark_all [OF wf])
  show "time_inv clk (reconcile clk i rep s)"
    unfolding time_inv_def
  proof (intro allI impI)
    fix h w
    assume a: "lookup (reconcile clk i rep s) h = Some w"
    have t: "ticks (reconcile clk i rep s) = ticks ?f" by (simp add: reconcile_def)
    show "first_seen w + total_open_time w \<le> clk (ticks (reconcile clk i rep s))"
    proof (cases "h \<in> fst ` set rep")
      case True
      then have "lookup ?f h = Some w" using a lm [of h] by (simp only: if_True)
      then show ?thesis using tf unfolding time_inv_def t by blast
    next
      case False
      then have "map_option (\<lambda>w. w\<lparr>is_visible := False\<rparr>) (lookup ?f h) = Some w"
        using a lm [of h] by (simp only: if_False)
      then obtain w0 where "lookup ?f h = Some w0" "w = w0\<lparr>is_visible := False\<rparr>"
        by (cases "lookup ?f h") auto
      then show ?thesis using tf unfolding time_inv_def t by force
    qed
  qed
qed

lemma time_inv_step:
  assumes "mono clk" and "invariant s" and "time_inv clk s"
  shows "time_inv clk (step clk op s)"
proof (cases op)
  case Start
  show ?thesis
  proof (cases "running s")
    case True
    then show ?thesis using assms(3) Start by (simp add: start_def)
  next
    case False
    have "time_inv clk (s\<lparr>running := True, last_update_time := Some (clk (ticks s)),
        ticks := ticks s + 1\<rparr>)"
      by (rule time_inv_ticks [OF assms(1,3), of "ticks s + 1"]) simp_all
    then show ?thesis using False Start by (simp add: start_def)
  qed
next
  case Stop
  have "time_inv clk (stop s)"
    by (rule time_inv_ticks [OF assms(1,3), of "ticks s"]) (simp_all add: stop_def)
  then show ?thesis using Stop by simp
next
  case Clear
  then show ?thesis by (simp add: clear_def time_inv_def lookup_alt)
next
  case (Poll env)
  show ?thesis
  proof (cases "polled s env")
    case None
    from poll_failure [OF this, of clk] obtain k l es where k: "ticks s \<le> k" and
      s': "step clk (Poll env) s = s\<lparr>last_update_time := l, ticks := k, effects := effects s @ es\<rparr>"
      by blast
    have "time_inv clk (s\<lparr>last_update_time := l, ticks := k, effects := effects s @ es\<rparr>)"
      by (rule time_inv_ticks [OF assms(1,3) k]) simp_all
    then show ?thesis unfolding Poll s' .
  next
    case (Some rep)
    from poll_success [OF this, of clk] obtain k prev where k: "ticks s < k" and
      s': "step clk (Poll env) s
       = (reconcile clk (clk (ticks s) - prev) rep
            (s\<lparr>last_update_time := Some (clk (ticks s)), ticks := k\<rparr>))
         \<lparr>effects := effects s @ [Sleep WINDOW_ENUMERATION_INTERVAL]\<rparr>" by blast
    let ?s2 = "s\<lparr>last_update_time := Some (clk (ticks s)), ticks := k\<rparr>"
    let ?r = "reconcile clk (clk (ticks s) - prev) rep ?s2"
    have w2: "well_formed ?s2" using assms(2) by (simp add: invariant_def)
    have "ticks s \<le> k" using k by simp
    then have t2: "time_inv clk ?s2"
      by (rule time_inv_ticks [OF assms(1,3)]) simp_all
    have "time_inv clk ?r" by (rule time_reconcile [OF assms(1) w2 t2])
    then have "time_inv clk (?r\<lparr>effects := effects s @ [Sleep WINDOW_ENUMERATION_INTERVAL]\<rparr>)"
      by (rule time_inv_ticks [OF assms(1), of _ "ticks ?r"]) simp_all
    then show ?thesis unfolding Poll s' .
  qed
qed

lemma time_inv_run:
  "mono clk \<Longrightarrow> invariant s \<Longrightarrow> time_inv clk s
     \<Longrightarrow> invariant (run clk ops s) \<and> time_inv clk (run clk ops s)"
  unfolding run_def
proof (induction ops arbitrary: s)
  case Nil
  then show ?case by simp
next
  case (Cons op ops)
  have "invariant (step clk op s)" using Cons.prems(2) by (rule invariant_step)
  moreover have "time_inv clk (step clk op s)"
    using Cons.prems by (rule time_inv_step)
  ultimately show ?case using Cons.IH [of "step clk op s"] Cons.prems(1) by simp
qed

lemma time_inv_reachable:
  assumes "mono clk"
  shows "time_inv clk (run clk ops (new_tracker mode wt))"
proof -
  have "time_inv clk (new_tracker mode wt)"
    by (simp add: time_inv_def lookup_alt new_tracker_def)
  then show ?thesis using time_inv_run [OF assms invariant_new] by blast
qed


text \<open>
  C4, as stated, fails in both of its inequalities. On a clock that never goes back: the
  editor is created in the first cycle, when the slow snapshot has arrived (\<open>first_seen\<close>
  0.5 s), and is focused in the second, whose interval is 1.5 s (measured between the starts
  of the two cycles) and whose update reads the clock at 1.6 s. Then \<open>active_time\<close> is
  1.5 s and \<open>total_open_time\<close> is 1.1 s. And \<open>total_open_time\<close> is taken from
  \<open>datetime.now()\<close>, the wall clock: when that is set back during the third cycle, the
  \<open>total_open_time\<close> of the editor is 1 s after the second cycle and 0.5 s after the
  third.
\<close>

theorem active_le_total_counterexample:
  "mono slow_clock
   \<and> lookup (run slow_clock [Start, Poll editor_only, Poll editor_only] (new_tracker True None)) 1
     = Some \<lparr>hwnd = 1, title = ''Editor'', process_name = ''editor'', first_seen = 500000,
         last_seen = 1600000, total_open_time = 1100000, active_time = 1500000,
         is_active = True, is_visible = True\<rparr>
   \<and> lookup (run adjusted_clock [Start, Poll editor_only, Poll editor_only]
        (new_tracker True None)) 1
     = Some \<lparr>hwnd = 1, title = ''Editor'', process_name = ''editor'', first_seen = 1000000,
         last_seen = 2000000, total_open_time = 1000000, active_time = 1000000,
         is_active = True, is_visible = True\<rparr>
   \<and> lookup (run adjusted_clock [Start, Poll editor_only, Poll editor_only, Poll editor_only]
        (new_tracker True None)) 1
     = Some \<lparr>hwnd = 1, title = ''Editor'', process_name = ''editor'', first_seen = 1000000,
         last_seen = 1500000, total_open_time = 500000, active_time = 2000000,
         is_active = True, is_visible = True\<rparr>"
proof -
  have "sorted [0, 0, 500000, 500000, 1500000, 1600000, 1600000 :: int]" by simp
  then have "mono slow_clock" unfolding slow_clock_def by (rule mono_clock_of)
  moreover have
    "lookup (run slow_clock [Start, Poll editor_only, Poll editor_only] (new_tracker True None)) 1
     = Some \<lparr>hwnd = 1, title = ''Editor'', process_name = ''editor'', first_seen = 500000,
         last_seen = 1600000, total_open_time = 1100000, active_time = 1500000,
         is_active = True, is_visible = True\<rparr>"
    by (simp add: eval_defs slow_clock_def)
  moreover have
    "lookup (run adjusted_clock [Start, Poll editor_only, Poll editor_only]
        (new_tracker True None)) 1
     = Some \<lparr>hwnd = 1, title = ''Editor'', process_name = ''editor'', first_seen = 1000000,
         last_seen = 2000000, total_open_time = 1000000, active_time = 1000000,
         is_active = True, is_visible = True\<rparr>"
    by (simp add: eval_defs adjusted_clock_def)
  moreover have
    "lookup (run adjusted_clock [Start, Poll editor_only, Poll editor_only, Poll editor_only]
        (new_tracker True None)) 1
     = Some \<lparr>hwnd = 1, title = ''Editor'', process_name = ''editor'', first_seen = 1000000,
         last_seen = 1500000, total_open_time = 500000, active_time = 2000000,
         is_active = True, is_visible = True\<rparr>"
    by (simp add: eval_defs adjusted_clock_def)
  ultimately show ?thesis by blast
qed

text \<open>
  C4, amended. In every state reached from a new tracker and for every tracked record, one
  more iteration of the loop keeps \<open>first_seen\<close> and, when the clock never goes back,
  does not decrease \<open>total_open_time\<close>; an iteration that fails leaves the record as it
  is; an iteration that obtains a snapshot adds to \<open>active_time\<close> the interval of the
  cycle once for every entry of the snapshot that reports the record focused (nothing when
  none does). When the record is in the snapshot, \<open>last_seen\<close> and \<open>total_open_time\<close>
  are recomputed from two successive readings of the clock taken in this iteration, after
  its start: \<open>total_open_time\<close> is the second reading minus \<open>first_seen\<close>. When it is
  not, only \<open>is_visible\<close> changes.
\<close>

theorem time_accounting:
  assumes "s = run clk ops (new_tracker mode wt)" and "lookup s h = Some w"
  shows "\<exists>w'. lookup (step clk (Poll env) s) h = Some w'
     \<and> first_seen w' = first_seen w
     \<and> (mono clk \<longrightarrow> total_open_time w \<le> total_open_time w')
     \<and> (polled s env = None \<longrightarrow> w' = w)
     \<and> (\<forall>rep. polled s env = Some rep \<longrightarrow>
          (\<exists>prev. last_update_time s = Some prev
             \<and> active_time w' = active_time w + (clk (ticks s) - prev) * int (focus_count rep h))
          \<and> (h \<in> fst ` set rep \<longrightarrow>
               (\<exists>n. ticks s < n \<and> n + 1 < ticks (step clk (Poll env) s)
                  \<and> last_seen w' = clk n \<and> total_open_time w' = clk (n + 1) - first_seen w))
          \<and> (h \<notin> fst ` set rep \<longrightarrow> w' = w\<lparr>is_visible := False\<rparr>))"
proof (cases "polled s env")
  case None
  from poll_failure [OF this, of clk] obtain k l es where
    s': "step clk (Poll env) s = s\<lparr>last_update_time := l, ticks := k, effects := effects s @ es\<rparr>"
    by blast
  have "lookup (step clk (Poll env) s) h = Some w"
    unfolding s' using assms(2) by simp
  then show ?thesis using None by simp
next
  case (Some rep)
  have inv: "invariant s" using assms(1) by (simp add: invariant_reachable)
  from poll_success [OF Some, of clk] obtain k prev where k: "ticks s < k" and
    l: "last_update_time s = Some prev" and
    s': "step clk (Poll env) s
     = (reconcile clk (clk (ticks s) - prev) rep
          (s\<lparr>last_update_time := Some (clk (ticks s)), ticks := k\<rparr>))
       \<lparr>effects := effects s @ [Sleep WINDOW_ENUMERATION_INTERVAL]\<rparr>" by blast
  let ?i = "clk (ticks s) - prev"
  let ?s2 = "s\<lparr>last_update_time := Some (clk (ticks s)), ticks := k\<rparr>"
  let ?s' = "step clk (Poll env) s"
  have w2: "well_formed ?s2" using inv by (simp add: invariant_def)
  have l2: "lookup ?s2 h = Some w" using assms(2) by simp
  have t': "ticks ?s' = k + 2 * length rep" using s' by (rule ticks_poll)
  have lk: "lookup ?s' h
      = (if h \<in> fst ` set rep then lookup (fold (reconcile_entry clk ?i) rep ?s2) h
         else map_option (\<lambda>w. w\<lparr>is_visible := False\<rparr>) (lookup ?s2 h))"
    unfolding s' by (simp add: lookup_reconcile [OF w2])
  show ?thesis
  proof (cases "h \<in> fst ` set rep")
    case True
    from fold_accounting [OF w2 l2, of clk ?i rep] True obtain w' n where
      w': "lookup (fold (reconcile_entry clk ?i) rep ?s2) h = Some w'"
        "first_seen w' = first_seen w"
        "active_time w' = active_time w + ?i * int (focus_count rep h)"
      and n: "ticks ?s2 \<le> n" "n + 2 \<le> ticks ?s2 + 2 * length rep"
        "last_seen w' = clk n" "total_open_time w' = clk (n + 1) - first_seen w"
      by blast
    have 1: "lookup ?s' h = Some w'" using lk True w'(1) by (simp only: if_True)
    have 2: "ticks s < n" "n + 1 < ticks ?s'" using n(1,2) k t' by simp_all
    have 3: "mono clk \<longrightarrow> total_open_time w \<le> total_open_time w'"
    proof
      assume m: "mono clk"
      have "time_inv clk s" unfolding assms(1) using m by (rule time_inv_reachable)
      then have "first_seen w + total_open_time w \<le> clk (ticks s)"
        using assms(2) unfolding time_inv_def by blast
      moreover have "clk (ticks s) \<le> clk (n + 1)" using m 2(1) by (simp add: monoD)
      ultimately show "total_open_time w \<le> total_open_time w'" using n(4) by simp
    qed
    have 4: "\<exists>n. ticks s < n \<and> n + 1 < ticks ?s'
        \<and> last_seen w' = clk n \<and> total_open_time w' = clk (n + 1) - first_seen w"
      using 2 n(3,4) by blast
    have 5: "\<forall>rep'. polled s env = Some rep' \<longrightarrow>
          (\<exists>prev. last_update_time s = Some prev
             \<and> active_time w' = active_time w + (clk (ticks s) - prev) * int (focus_count rep' h))
          \<and> (h \<in> fst ` set rep' \<longrightarrow>
               (\<exists>n. ticks s < n \<and> n + 1 < ticks ?s'
                  \<and> last_seen w' = clk n \<and> total_open_time w' = clk (n + 1) - first_seen w))
          \<and> (h \<notin> fst ` set rep' \<longrightarrow> w' = w\<lparr>is_visible := False\<rparr>)"
      using Some l w'(3) 4 True by simp
    have 6: "polled s env = None \<longrightarrow> w' = w" using Some by simp
    show ?thesis
      by (intro exI [of _ w'] conjI) (rule 1 w'(2) 3 6 5)+
  next
    case False
    let ?w' = "w\<lparr>is_visible := False\<rparr>"
    have 1: "lookup ?s' h = Some ?w'"
      using lk False l2 by (simp only: if_False option.map)
    have fc: "focus_count rep h = 0" using False by (rule focus_count_other)
    have 5: "\<forall>rep'. polled s env = Some rep' \<longrightarrow>
          (\<exists>prev. last_update_time s = Some prev
             \<and> active_time ?w' = active_time w + (clk (ticks s) - prev) * int (focus_count rep' h))
          \<and> (h \<in> fst ` set rep' \<longrightarrow>
               (\<exists>n. ticks s < n \<and> n + 1 < ticks ?s'
                  \<and> last_seen ?w' = clk n \<and> total_open_time ?w' = clk (n + 1) - first_seen w))
          \<and> (h \<notin> fst ` set rep' \<longrightarrow> ?w' = w\<lparr>is_visible := False\<rparr>)"
      using Some l fc False by simp
    have 6: "polled s env = None \<longrightarrow> ?w' = w" using Some by simp
    have 2: "first_seen ?w' = first_seen w"
      "mono clk \<longrightarrow> total_open_time w \<le> total_open_time ?w'"
      by simp_all
    show ?thesis
      by (intro exI [of _ ?w'] conjI) (rule 1 2 6 5)+
  qed
qed

theorem time_accounting_witness:
  "mono demo_clock
   \<and> lookup (run demo_clock [Start, Poll editor_only] (new_tracker True None)) 1
     = Some \<lparr>hwnd = 1, title = ''Editor'', process_name = ''editor'', first_seen = 1000000,
         last_seen = 1000000, total_open_time = 0, active_time = 0, is_active = True,
         is_visible = True\<rparr>
   \<and> polled (run demo_clock [Start, Poll editor_only] (new_tracker True None)) editor_only
     = Some [(1, ''Editor'', ''editor'', True)]
   \<and> 1 \<in> fst ` set [(1 :: int, ''Editor'', ''editor'', True)]
   \<and> focus_count [(1, ''Editor'', ''editor'', True)] 1 = 1
   \<and> ticks (run demo_clock [Start, Poll editor_only] (new_tracker True None)) = 4
   \<and> ticks (step demo_clock (Poll editor_only)
        (run demo_clock [Start, Poll editor_only] (new_tracker True None))) = 7
   \<and> demo_clock 5 = 3000000 \<and> demo_clock 6 = 3000000
   \<and> lookup (step demo_clock (Poll editor_only)
        (run demo_clock [Start, Poll editor_only] (new_tracker True None))) 1
     = Some \<lparr>hwnd = 1, title = ''Editor'', process_name = ''editor'', first_seen = 1000000,
         last_seen = 3000000, total_open_time = 2000000, active_time = 2000000,
         is_active = True, is_visible = True\<rparr>"
proof -
  have "sorted [0, 1000000, 1000000, 1000000, 3000000, 3000000, 3000000, 3000000,
     3000000, 4000000, 4000000, 4000000 :: int]" by simp
  then have m: "mono demo_clock" unfolding demo_clock_def by (rule mono_clock_of)
  have a: "lookup (run demo_clock [Start, Poll editor_only] (new_tracker True None)) 1
     = Some \<lparr>hwnd = 1, title = ''Editor'', process_name = ''editor'', first_seen = 1000000,
         last_seen = 1000000, total_open_time = 0, active_time = 0, is_active = True,
         is_visible = True\<rparr>"
    by (simp add: eval_defs focus_count_def)
  have b: "polled (run demo_clock [Start, Poll editor_only] (new_tracker True None)) editor_only
     = Some [(1, ''Editor'', ''editor'', True)]"
    by (simp add: eval_defs focus_count_def)
  have c: "lookup (step demo_clock (Poll editor_only)
        (run demo_clock [Start, Poll editor_only] (new_tracker True None))) 1
     = Some \<lparr>hwnd = 1, title = ''Editor'', process_name = ''editor'', first_seen = 1000000,
         last_seen = 3000000, total_open_time = 2000000, active_time = 2000000,
         is_active = True, is_visible = True\<rparr>"
    by (simp add: eval_defs focus_count_def)
  have d: "focus_count [(1, ''Editor'', ''editor'', True)] 1 = 1"
    by (simp add: eval_defs focus_count_def)
  have e: "ticks (run demo_clock [Start, Poll editor_only] (new_tracker True None)) = 4"
    by (simp add: eval_defs)
  have f: "ticks (step demo_clock (Poll editor_only)
        (run demo_clock [Start, Poll editor_only] (new_tracker True None))) = 7"
    by (simp add: eval_defs)
  have g: "demo_clock 5 = 3000000" "demo_clock 6 = 3000000"
    by (simp_all add: demo_clock_def clock_of_def)
  from time_accounting [OF refl a, where env = editor_only] show ?thesis
    using m a b c d e f g by (simp del: step.simps)
qed

end
